theory Spec2Isabelle
  imports Main "HOL-Library.Word"
begin

section \<open>JavaScript values\<close>

text \<open>
  A JavaScript string is a sequence of UTF-16 code units. String literals of the source are
  ASCII and are written \<open>js ''...''\<close>.
\<close>

type_synonym jsstring = "16 word list"

definition js :: "string \<Rightarrow> jsstring" where
  "js s = map of_char s"

text \<open>
  \<open>String.prototype.trim\<close> removes the ECMAScript WhiteSpace and LineTerminator code points
  (TAB, LF, VT, FF, CR, SP, NBSP, the Unicode space separators, LS, PS and ZWNBSP) from both
  ends.
\<close>

definition isWhiteSpace :: "16 word \<Rightarrow> bool" where
  "isWhiteSpace c =
     (c \<in> {0x09, 0x0A, 0x0B, 0x0C, 0x0D, 0x20, 0xA0, 0x1680, 0x2028, 0x2029,
            0x202F, 0x205F, 0x3000, 0xFEFF}
      \<or> (0x2000 \<le> c \<and> c \<le> 0x200A))"

definition trim :: "jsstring \<Rightarrow> jsstring" where
  "trim s = rev (dropWhile isWhiteSpace (rev (dropWhile isWhiteSpace s)))"

text \<open>
  A promise returned by \<open>invoke\<close> is rejected with some value; the handlers of the source
  only ask whether it is an \<open>Error\<close> object (and then read its message).
\<close>

datatype thrown = ErrorObject jsstring | OtherValue

definition messageOr :: "thrown \<Rightarrow> jsstring \<Rightarrow> jsstring" where
  "messageOr e fallback = (case e of ErrorObject m \<Rightarrow> m | OtherValue \<Rightarrow> fallback)"

section \<open>GitPanel.vue: data\<close>

record GitChange =
  path :: jsstring
  status_c :: jsstring
  staged :: bool
  unstaged :: bool
  untracked :: bool

record GitStatusResponse =
  repoPath :: jsstring
  branch :: jsstring
  ahead :: int
  behind :: int
  changes :: "GitChange list"

record GitBranchesResponse =
  current :: jsstring
  branches_r :: "jsstring list"

text \<open>The backend commands the panel invokes, with their arguments.\<close>

datatype invocation =
    git_status "jsstring option"
  | git_branches jsstring
  | git_diff jsstring jsstring bool bool
  | git_commit jsstring jsstring bool
  | git_checkout jsstring jsstring

text \<open>
  An \<open>async\<close> function runs until it awaits a backend promise and is resumed when the promise
  settles. A suspended call is a \<open>task\<close>; the function that awaits \<open>refresh()\<close>, if any, is
  its \<open>awaiter\<close> (\<open>NoAwaiter\<close> for the calls whose promise is dropped or has nothing after
  it: the click handler, the watchers, \<open>onMounted\<close> and the call in \<open>finally\<close>).
\<close>

datatype awaiter = NoAwaiter | CommitChangesAwaits | SwitchBranchAwaits

datatype task =
    RefreshStatus awaiter
  | RefreshBranches GitStatusResponse awaiter
  | LoadDiff nat "awaiter option"
  | CommitInvoke
  | CheckoutInvoke

text \<open>
  What the diff container shows: a text set by \<open>renderEmpty\<close>, or the first file diff of a
  patch rendered by the diff library.
\<close>

datatype content = TextContent jsstring | FileDiffOf jsstring

text \<open>
  The diff library (\<open>parsePatchFiles\<close>, \<open>FileDiff.render\<close>) is external; its behaviour on a
  patch is a parameter \<open>L\<close> of the model.
\<close>

datatype library_outcome = ParseThrows | NoFileDiff | RenderThrows | Rendered

text \<open>
  The refs and module variables of the component, the two props, and the two things the
  model adds to speak about effects: the backend commands invoked so far, in order, and the
  suspended tasks, keyed by the position of the invocation they wait for.
\<close>

record GitPanel =
  props_open :: bool
  props_repoPath :: "jsstring option"
  loading :: bool
  loadingDiff :: bool
  error :: "jsstring option"
  status :: "GitStatusResponse option"
  selectedPath :: "jsstring option"
  diffContainer :: "content option"
  lastRepoPath :: "jsstring option"
  commitLoading :: bool
  commitMessage :: jsstring
  branchLoading :: bool
  checkoutLoading :: bool
  branches :: "jsstring list"
  currentBranch :: jsstring
  branchModalOpen :: bool
  branchQuery :: jsstring
  diffInstance :: bool
  refreshInFlight :: bool
  refreshQueued :: bool
  diffToken :: nat
  invocations :: "invocation list"
  pending :: "nat \<Rightarrow> task option"

definition created :: "bool \<Rightarrow> jsstring option \<Rightarrow> GitPanel" where
  "created isOpen rp =
     \<lparr> props_open = isOpen, props_repoPath = rp, loading = False, loadingDiff = False,
       error = None, status = None, selectedPath = None, diffContainer = None,
       lastRepoPath = None, commitLoading = False, commitMessage = [],
       branchLoading = False, checkoutLoading = False, branches = [], currentBranch = [],
       branchModalOpen = False, branchQuery = [], diffInstance = False,
       refreshInFlight = False, refreshQueued = False, diffToken = 0,
       invocations = [], pending = (\<lambda>i. None) \<rparr>"

section \<open>GitPanel.vue: functions\<close>

definition invoke :: "invocation \<Rightarrow> task \<Rightarrow> GitPanel \<Rightarrow> GitPanel" where
  "invoke c t p =
     p\<lparr> invocations := invocations p @ [c],
        pending := (pending p)(length (invocations p) := Some t) \<rparr>"

definition stagedCount :: "GitPanel \<Rightarrow> nat" where
  "stagedCount p = (case status p of None \<Rightarrow> 0 | Some st \<Rightarrow> length (filter staged (changes st)))"

definition commitDisabledReason :: "GitPanel \<Rightarrow> jsstring option" where
  "commitDisabledReason p =
     (if commitLoading p then Some (js ''Committing changes'')
      else if stagedCount p = 0 then Some (js ''Stage files before commit'')
      else if length (trim (commitMessage p)) = 0 then Some (js ''Enter a commit message'')
      else None)"

definition canCommit :: "GitPanel \<Rightarrow> bool" where
  "canCommit p = (commitDisabledReason p = None)"

definition renderEmpty :: "jsstring \<Rightarrow> GitPanel \<Rightarrow> GitPanel" where
  "renderEmpty message p =
     (case diffContainer p of
        None \<Rightarrow> p
      | Some _ \<Rightarrow> p\<lparr> diffContainer := Some (TextContent message) \<rparr>)"

definition renderDiffFromPatch ::
    "(jsstring \<Rightarrow> library_outcome) \<Rightarrow> jsstring \<Rightarrow> GitPanel \<Rightarrow> GitPanel" where
  "renderDiffFromPatch L patch p =
     (if diffContainer p = None \<or> \<not> diffInstance p then p
      else if trim patch = [] then renderEmpty (js ''No diff'') p
      else (case L patch of
              Rendered \<Rightarrow> p\<lparr> diffContainer := Some (FileDiffOf patch) \<rparr>
            | NoFileDiff \<Rightarrow> renderEmpty (js ''Cannot parse diff'') p
            | ParseThrows \<Rightarrow> renderEmpty (js ''Cannot render diff'') p
            | RenderThrows \<Rightarrow> renderEmpty (js ''Cannot render diff'') p))"

text \<open>The code that follows \<open>await refresh()\<close> in the awaiting function.\<close>

fun resume :: "awaiter \<Rightarrow> GitPanel \<Rightarrow> GitPanel" where
  "resume NoAwaiter p = p"
| "resume CommitChangesAwaits p = p\<lparr> commitLoading := False \<rparr>"
| "resume SwitchBranchAwaits p =
     p\<lparr> branchModalOpen := False, branchQuery := [], checkoutLoading := False \<rparr>"

text \<open>\<open>refresh()\<close> up to its first \<open>await\<close>.\<close>

definition refresh :: "awaiter \<Rightarrow> GitPanel \<Rightarrow> GitPanel" where
  "refresh a p =
     (if refreshInFlight p then resume a (p\<lparr> refreshQueued := True \<rparr>)
      else invoke
             (git_status (case props_repoPath p of Some r \<Rightarrow> Some r | None \<Rightarrow> lastRepoPath p))
             (RefreshStatus a)
             (p\<lparr> refreshInFlight := True, loading := True, error := None \<rparr>))"

text \<open>The \<open>finally\<close> block of \<open>refresh\<close>, after which the awaiter continues.\<close>

definition refresh_finally :: "awaiter \<Rightarrow> GitPanel \<Rightarrow> GitPanel" where
  "refresh_finally a p =
     (let p1 = p\<lparr> loading := False, refreshInFlight := False \<rparr>;
          p2 = (if refreshQueued p1 then refresh NoAwaiter (p1\<lparr> refreshQueued := False \<rparr>)
                else p1)
      in resume a p2)"

text \<open>
  \<open>loadDiff(path)\<close> up to its \<open>await\<close>. \<open>k\<close> is \<open>Some a\<close> when \<open>refresh\<close> (awaited by
  \<open>a\<close>) awaits the call, and \<open>None\<close> for the calls of \<open>pickFile\<close> and of the watcher.
\<close>

definition loadDiff_target :: "jsstring \<Rightarrow> GitPanel \<Rightarrow> (GitStatusResponse \<times> GitChange) option" where
  "loadDiff_target pth p =
     (case status p of
        None \<Rightarrow> None
      | Some st \<Rightarrow>
          (case find (\<lambda>change. path change = pth) (changes st) of
             None \<Rightarrow> None
           | Some target \<Rightarrow> if repoPath st = [] then None else Some (st, target)))"

definition loadDiff :: "jsstring \<Rightarrow> awaiter option \<Rightarrow> GitPanel \<Rightarrow> GitPanel" where
  "loadDiff pth k p =
     (case loadDiff_target pth p of
        None \<Rightarrow> (case k of None \<Rightarrow> p | Some a \<Rightarrow> refresh_finally a p)
      | Some (st, target) \<Rightarrow>
          invoke (git_diff (repoPath st) (path target) False (untracked target))
            (LoadDiff (diffToken p + 1) k)
            (p\<lparr> diffToken := diffToken p + 1, loadingDiff := True \<rparr>))"

text \<open>
  \<open>loadDiff\<close> after its \<open>await\<close>: \<open>tok\<close> is the captured \<open>currentDiffToken\<close>.
  \<open>render_result\<close> is what the \<open>try\<close> and \<open>catch\<close> branches do with a result that is not
  stale.
\<close>

definition render_result ::
    "(jsstring \<Rightarrow> library_outcome) \<Rightarrow> thrown + jsstring \<Rightarrow> GitPanel \<Rightarrow> GitPanel" where
  "render_result L r p =
     (case r of
        Inr patch \<Rightarrow> renderDiffFromPatch L patch p
      | Inl e \<Rightarrow> renderEmpty (js ''Failed to load diff'') p)"

definition loadDiff_settled ::
    "(jsstring \<Rightarrow> library_outcome) \<Rightarrow> nat \<Rightarrow> awaiter option \<Rightarrow> thrown + jsstring \<Rightarrow>
     GitPanel \<Rightarrow> GitPanel" where
  "loadDiff_settled L tok k r p =
     (let p1 = (if tok \<noteq> diffToken p then p else render_result L r p);
          p2 = (if tok = diffToken p1 then p1\<lparr> loadingDiff := False \<rparr> else p1)
      in case k of None \<Rightarrow> p2 | Some a \<Rightarrow> refresh_finally a p2)"

text \<open>
  \<open>refresh\<close> after \<open>await invoke("git_status")\<close>: on success it stores the status and enters
  \<open>loadBranches\<close>, which suspends at \<open>git_branches\<close>; on failure it runs \<open>catch\<close> and
  \<open>finally\<close>.
\<close>

definition refresh_status_settled ::
    "awaiter \<Rightarrow> thrown + GitStatusResponse \<Rightarrow> GitPanel \<Rightarrow> GitPanel" where
  "refresh_status_settled a r p =
     (case r of
        Inr nextStatus \<Rightarrow>
          invoke (git_branches (repoPath nextStatus)) (RefreshBranches nextStatus a)
            (p\<lparr> status := Some nextStatus, lastRepoPath := Some (repoPath nextStatus),
               branchLoading := True \<rparr>)
      | Inl e \<Rightarrow>
          (let message = messageOr e (js ''Failed to load git status'')
           in refresh_finally a (renderEmpty message (p\<lparr> error := Some message \<rparr>))))"

text \<open>
  The rest of \<open>loadBranches\<close> and of the \<open>try\<close> block of \<open>refresh\<close>, down to the call of
  \<open>loadDiff\<close>.
\<close>

definition refresh_branches_settled ::
    "GitStatusResponse \<Rightarrow> awaiter \<Rightarrow> thrown + GitBranchesResponse \<Rightarrow> GitPanel \<Rightarrow> GitPanel" where
  "refresh_branches_settled nextStatus a r p =
     (let p1 = (case r of
                  Inr response \<Rightarrow>
                    p\<lparr> branches := branches_r response, currentBranch := current response \<rparr>
                | Inl e \<Rightarrow> p\<lparr> branches := [], currentBranch := [] \<rparr>)
               \<lparr> branchLoading := False \<rparr>
      in case changes nextStatus of
           [] \<Rightarrow> refresh_finally a (renderEmpty (js ''Working tree clean'') (p1\<lparr> selectedPath := None \<rparr>))
         | first # _ \<Rightarrow>
             (let stillSelected =
                    list_ex (\<lambda>change. Some (path change) = selectedPath p1) (changes nextStatus);
                  p2 = p1\<lparr> selectedPath :=
                            (if stillSelected then selectedPath p1 else Some (path first)) \<rparr>
              in case selectedPath p2 of
                   None \<Rightarrow> refresh_finally a p2
                 | Some sel \<Rightarrow>
                     if sel = [] then refresh_finally a p2 else loadDiff sel (Some a) p2))"

definition pickFile :: "jsstring \<Rightarrow> GitPanel \<Rightarrow> GitPanel" where
  "pickFile pth p = loadDiff pth None (p\<lparr> selectedPath := Some pth \<rparr>)"

definition activeRepoPath :: "GitPanel \<Rightarrow> jsstring option" where
  "activeRepoPath p = (case status p of Some st \<Rightarrow> Some (repoPath st) | None \<Rightarrow> lastRepoPath p)"

text \<open>\<open>commitChanges(amend)\<close> up to \<open>await invoke("git_commit")\<close>, and after it.\<close>

definition commitChanges :: "bool \<Rightarrow> GitPanel \<Rightarrow> GitPanel" where
  "commitChanges amend p =
     (if \<not> canCommit p then p
      else (case activeRepoPath p of
              None \<Rightarrow> p
            | Some rp \<Rightarrow>
                if rp = [] then p
                else invoke (git_commit rp (trim (commitMessage p)) amend) CommitInvoke
                       (p\<lparr> commitLoading := True, error := None \<rparr>)))"

definition commit_settled :: "thrown + unit \<Rightarrow> GitPanel \<Rightarrow> GitPanel" where
  "commit_settled r p =
     (case r of
        Inr _ \<Rightarrow> refresh CommitChangesAwaits (p\<lparr> commitMessage := [] \<rparr>)
      | Inl e \<Rightarrow> p\<lparr> error := Some (messageOr e (js ''Failed to commit'')),
                    commitLoading := False \<rparr>)"

text \<open>\<open>switchBranch(branch)\<close> up to \<open>await invoke("git_checkout")\<close>, and after it.\<close>

definition switchBranch :: "jsstring \<Rightarrow> GitPanel \<Rightarrow> GitPanel" where
  "switchBranch b p =
     (let target = trim b
      in case activeRepoPath p of
           None \<Rightarrow> p
         | Some rp \<Rightarrow>
             if rp = [] \<or> target = [] \<or> checkoutLoading p then p
             else if target = currentBranch p then p
             else invoke (git_checkout rp target) CheckoutInvoke
                    (p\<lparr> checkoutLoading := True, error := None \<rparr>))"

definition checkout_settled :: "thrown + unit \<Rightarrow> GitPanel \<Rightarrow> GitPanel" where
  "checkout_settled r p =
     (case r of
        Inr _ \<Rightarrow> refresh SwitchBranchAwaits p
      | Inl e \<Rightarrow> p\<lparr> error := Some (messageOr e (js ''Failed to switch branch'')),
                    checkoutLoading := False \<rparr>)"

text \<open>
  \<open>onMounted\<close>; the template ref \<open>diffContainer\<close> is bound to the empty container element
  when the hook runs.
\<close>

definition onMounted :: "GitPanel \<Rightarrow> GitPanel" where
  "onMounted p =
     refresh NoAwaiter
       (renderEmpty [] (p\<lparr> diffContainer := Some (TextContent []), diffInstance := True \<rparr>))"

text \<open>The two watchers, run when the prop has changed to the given value.\<close>

definition watch_open :: "bool \<Rightarrow> GitPanel \<Rightarrow> GitPanel" where
  "watch_open isOpen p0 =
     (let p = p0\<lparr> props_open := isOpen \<rparr>
      in if \<not> isOpen then p
         else if status p = None then refresh NoAwaiter p
         else (case selectedPath p of
                 None \<Rightarrow> p
               | Some sel \<Rightarrow> if sel = [] then p else loadDiff sel None p))"

definition watch_repoPath :: "jsstring option \<Rightarrow> GitPanel \<Rightarrow> GitPanel" where
  "watch_repoPath nextPath p0 =
     (let p = p0\<lparr> props_repoPath := nextPath \<rparr>;
          p1 = (case nextPath of
                  None \<Rightarrow> p
                | Some np \<Rightarrow> if np = [] then p else p\<lparr> lastRepoPath := Some np \<rparr>)
      in if \<not> props_open p1 then p1
         else if (nextPath = None \<or> nextPath = Some [])
                 \<and> (lastRepoPath p1 = None \<or> lastRepoPath p1 = Some []) then p1
         else refresh NoAwaiter p1)"

text \<open>
  What can happen to the panel: a call from the user interface or from a watcher, or the
  settling of a backend invocation. The settling of invocation \<open>i\<close> resumes the task that
  waits for it; a settling for which no such task waits does not occur and is a no-op.
\<close>

datatype event =
    CallRefresh
  | PickFile jsstring
  | OpenChanged bool
  | RepoPathChanged "jsstring option"
  | InputCommitMessage jsstring
  | CommitChanges bool
  | SwitchBranch jsstring
  | StatusSettled nat "thrown + GitStatusResponse"
  | BranchesSettled nat "thrown + GitBranchesResponse"
  | DiffSettled nat "thrown + jsstring"
  | CommitSettled nat "thrown + unit"
  | CheckoutSettled nat "thrown + unit"

definition taken :: "nat \<Rightarrow> GitPanel \<Rightarrow> GitPanel" where
  "taken i p = p\<lparr> pending := (pending p)(i := None) \<rparr>"

fun step :: "(jsstring \<Rightarrow> library_outcome) \<Rightarrow> event \<Rightarrow> GitPanel \<Rightarrow> GitPanel" where
  "step L CallRefresh p = refresh NoAwaiter p"
| "step L (PickFile pth) p = pickFile pth p"
| "step L (OpenChanged isOpen) p = watch_open isOpen p"
| "step L (RepoPathChanged nextPath) p = watch_repoPath nextPath p"
| "step L (InputCommitMessage m) p = p\<lparr> commitMessage := m \<rparr>"
| "step L (CommitChanges amend) p = commitChanges amend p"
| "step L (SwitchBranch b) p = switchBranch b p"
| "step L (StatusSettled i r) p =
     (case pending p i of
        Some (RefreshStatus a) \<Rightarrow> refresh_status_settled a r (taken i p)
      | _ \<Rightarrow> p)"
| "step L (BranchesSettled i r) p =
     (case pending p i of
        Some (RefreshBranches nextStatus a) \<Rightarrow> refresh_branches_settled nextStatus a r (taken i p)
      | _ \<Rightarrow> p)"
| "step L (DiffSettled i r) p =
     (case pending p i of
        Some (LoadDiff tok k) \<Rightarrow> loadDiff_settled L tok k r (taken i p)
      | _ \<Rightarrow> p)"
| "step L (CommitSettled i r) p =
     (case pending p i of
        Some CommitInvoke \<Rightarrow> commit_settled r (taken i p)
      | _ \<Rightarrow> p)"
| "step L (CheckoutSettled i r) p =
     (case pending p i of
        Some CheckoutInvoke \<Rightarrow> checkout_settled r (taken i p)
      | _ \<Rightarrow> p)"

definition run :: "(jsstring \<Rightarrow> library_outcome) \<Rightarrow> event list \<Rightarrow> GitPanel \<Rightarrow> GitPanel" where
  "run L es p = foldl (\<lambda>q e. step L e q) p es"

section \<open>Bursts of refresh calls\<close>

definition statusCalls :: "GitPanel \<Rightarrow> nat" where
  "statusCalls p =
     length (filter (\<lambda>c. case c of git_status _ \<Rightarrow> True | _ \<Rightarrow> False) (invocations p))"

definition branchesCalls :: "GitPanel \<Rightarrow> nat" where
  "branchesCalls p =
     length (filter (\<lambda>c. case c of git_branches _ \<Rightarrow> True | _ \<Rightarrow> False) (invocations p))"

text \<open>
  An event of a burst that started when \<open>b\<close> \<open>git_status\<close> invocations had been made: a
  further call of \<open>refresh()\<close> made while the first cycle is in flight (the panel is
  refreshing and the follow-up invocation has not been issued), or the backend's answer to
  an invocation a task of the refresh cycle waits for.
\<close>

fun burst_event :: "nat \<Rightarrow> event \<Rightarrow> GitPanel \<Rightarrow> bool" where
  "burst_event b CallRefresh p = (refreshInFlight p \<and> statusCalls p = b + 1)"
| "burst_event b (StatusSettled i r) p =
     (case pending p i of Some (RefreshStatus a) \<Rightarrow> True | _ \<Rightarrow> False)"
| "burst_event b (BranchesSettled i r) p =
     (case pending p i of Some (RefreshBranches nextStatus a) \<Rightarrow> True | _ \<Rightarrow> False)"
| "burst_event b (DiffSettled i r) p =
     (case pending p i of Some (LoadDiff tok k) \<Rightarrow> True | _ \<Rightarrow> False)"
| "burst_event b _ p = False"

fun burst :: "(jsstring \<Rightarrow> library_outcome) \<Rightarrow> nat \<Rightarrow> event list \<Rightarrow> GitPanel \<Rightarrow> bool" where
  "burst L b [] p = True"
| "burst L b (e # es) p = (burst_event b e p \<and> burst L b es (step L e p))"

section \<open>The window's timers\<close>

text \<open>
  The timers of the window: a handle maps to what was scheduled. The source schedules two
  things: with \<open>setTimeout\<close>, the resize debounce of a pane (the closure captures the pane's
  tab and the new size), and with \<open>setInterval\<close>, the poll of the working directory. A
  timeout leaves the table when it runs; an interval stays.
\<close>

datatype timer = ResizeTimeout jsstring nat nat | CwdInterval

record window =
  timers :: "nat \<Rightarrow> timer option"
  nextHandle :: nat

definition setTimer :: "timer \<Rightarrow> window \<Rightarrow> nat \<times> window" where
  "setTimer t w =
     (nextHandle w,
      w\<lparr> timers := (timers w)(nextHandle w := Some t), nextHandle := nextHandle w + 1 \<rparr>)"

definition clearTimer :: "nat \<Rightarrow> window \<Rightarrow> window" where
  "clearTimer h w = w\<lparr> timers := (timers w)(h := None) \<rparr>"

section \<open>TerminalPane.vue\<close>

datatype pane_invocation =
    open_terminal jsstring
  | write_terminal jsstring jsstring
  | resize_terminal jsstring nat nat
  | close_terminal jsstring

datatype emitted = Write jsstring | Writeln jsstring

text \<open>
  The pane: its \<open>tabId\<close> prop, the terminal emulator (what was written to it, in order;
  \<open>None\<close> while the variable is \<open>null\<close>), the debounce handle, whether the two event
  listeners are registered, whether \<open>onBeforeUnmount\<close> is waiting for \<open>close_terminal\<close>,
  whether the emulator has been disposed of, and the backend commands invoked so far.
\<close>

record TerminalPane =
  tabId :: jsstring
  terminal :: "emitted list option"
  resizeDebounce :: "nat option"
  listensData :: bool
  listensExit :: bool
  closing :: bool
  disposed :: bool
  pane_invocations :: "pane_invocation list"

definition syncPtySize :: "nat \<Rightarrow> nat \<Rightarrow> TerminalPane \<Rightarrow> TerminalPane" where
  "syncPtySize cols rows pn =
     pn\<lparr> pane_invocations := pane_invocations pn @ [resize_terminal (tabId pn) cols rows] \<rparr>"

text \<open>The handler given to \<open>terminal.onResize\<close>, and the callback it schedules.\<close>

definition onResize :: "nat \<Rightarrow> nat \<Rightarrow> TerminalPane \<times> window \<Rightarrow> TerminalPane \<times> window" where
  "onResize cols rows s =
     (case s of (pn, w) \<Rightarrow>
        (let w1 = (case resizeDebounce pn of None \<Rightarrow> w | Some h \<Rightarrow> clearTimer h w);
             (h, w2) = setTimer (ResizeTimeout (tabId pn) cols rows) w1
         in (pn\<lparr> resizeDebounce := Some h \<rparr>, w2)))"

definition resizeTimeout :: "nat \<Rightarrow> nat \<Rightarrow> TerminalPane \<Rightarrow> TerminalPane" where
  "resizeTimeout cols rows pn = (syncPtySize cols rows pn)\<lparr> resizeDebounce := None \<rparr>"

text \<open>
  The listeners of \<open>terminal-data\<close> and \<open>terminal-exit\<close>; \<open>tid\<close> is the \<open>tabId\<close> of the
  event's payload and \<open>d\<close> its \<open>data\<close>.
\<close>

definition onTerminalData :: "jsstring \<Rightarrow> jsstring \<Rightarrow> TerminalPane \<Rightarrow> TerminalPane" where
  "onTerminalData tid d pn =
     (if tid = tabId pn
      then pn\<lparr> terminal := map_option (\<lambda>out. out @ [Write d]) (terminal pn) \<rparr>
      else pn)"

definition onTerminalExit :: "jsstring \<Rightarrow> TerminalPane \<Rightarrow> TerminalPane" where
  "onTerminalExit tid pn =
     (if tid = tabId pn
      then pn\<lparr> terminal :=
                 map_option (\<lambda>out. out @ [Writeln ([0x0D, 0x0A] @ js ''[process exited]'')])
                   (terminal pn) \<rparr>
      else pn)"

text \<open>
  \<open>onBeforeUnmount\<close> of the pane up to \<open>await invoke("close_terminal")\<close>, and after it:
  whether the call succeeds or fails, the emulator is disposed of. The hook does not
  unregister the handler given to \<open>terminal.onResize\<close>.
\<close>

definition pane_onBeforeUnmount :: "TerminalPane \<times> window \<Rightarrow> TerminalPane \<times> window" where
  "pane_onBeforeUnmount s =
     (case s of (pn, w) \<Rightarrow>
        (pn\<lparr> listensData := False, listensExit := False, closing := True,
             pane_invocations := pane_invocations pn @ [close_terminal (tabId pn)] \<rparr>,
         (case resizeDebounce pn of None \<Rightarrow> w | Some h \<Rightarrow> clearTimer h w)))"

definition close_settled :: "TerminalPane \<Rightarrow> TerminalPane" where
  "close_settled pn = pn\<lparr> closing := False, disposed := True \<rparr>"

text \<open>
  What happens to a pane: the emulator reports a new size (until it is disposed of), the
  window runs the timer with a given handle, the backend emits an event, which reaches the
  pane when its listener is registered, or the \<open>close_terminal\<close> call of the unmount hook
  settles. A timer of another component leaves this pane as it is.
\<close>

datatype pane_event =
    Resized nat nat
  | TimerFired nat
  | TerminalData jsstring jsstring
  | TerminalExit jsstring
  | CloseSettled

fun pane_step :: "pane_event \<Rightarrow> TerminalPane \<times> window \<Rightarrow> TerminalPane \<times> window" where
  "pane_step (Resized cols rows) (pn, w) =
     (if disposed pn then (pn, w) else onResize cols rows (pn, w))"
| "pane_step CloseSettled (pn, w) =
     (if closing pn then (close_settled pn, w) else (pn, w))"
| "pane_step (TimerFired h) (pn, w) =
     (case timers w h of
        None \<Rightarrow> (pn, w)
      | Some (ResizeTimeout tid cols rows) \<Rightarrow>
          ((if tid = tabId pn then resizeTimeout cols rows pn else pn), clearTimer h w)
      | Some CwdInterval \<Rightarrow> (pn, w))"
| "pane_step (TerminalData tid d) (pn, w) =
     (if listensData pn then (onTerminalData tid d pn, w) else (pn, w))"
| "pane_step (TerminalExit tid) (pn, w) =
     (if listensExit pn then (onTerminalExit tid pn, w) else (pn, w))"

definition pane_run :: "pane_event list \<Rightarrow> TerminalPane \<times> window \<Rightarrow> TerminalPane \<times> window" where
  "pane_run es s = foldl (\<lambda>q e. pane_step e q) s es"

text \<open>
  A pane once \<open>onMounted\<close> has run to its end: the emulator exists, both listeners are
  registered, and the hook has invoked \<open>open_terminal\<close> and then, through
  \<open>fitTerminal(true)\<close>, \<open>resize_terminal\<close> with the size \<open>cols\<close>, \<open>rows\<close> the emulator has
  after fitting. (If fitting changed the size, the emulator has also reported it: that is a
  \<open>Resized\<close> event on this state.)
\<close>

definition mounted_pane :: "jsstring \<Rightarrow> nat \<Rightarrow> nat \<Rightarrow> TerminalPane" where
  "mounted_pane tid cols rows =
     \<lparr> tabId = tid, terminal = Some [], resizeDebounce = None, listensData = True,
       listensExit = True, closing = False, disposed = False,
       pane_invocations = [open_terminal tid, resize_terminal tid cols rows] \<rparr>"

definition resizeCalls :: "TerminalPane \<Rightarrow> nat" where
  "resizeCalls pn =
     length (filter (\<lambda>c. case c of resize_terminal _ _ _ \<Rightarrow> True | _ \<Rightarrow> False)
               (pane_invocations pn))"

section \<open>App.vue\<close>

record Project =
  project_id :: jsstring
  name :: jsstring

record TerminalTab =
  tab_id :: jsstring
  projectId :: jsstring
  title :: jsstring

record RuntimeSession =
  shell :: "jsstring option"
  runtime_title :: "jsstring option"

datatype app_invocation = terminal_cwd jsstring

text \<open>
  The persisted state (projects, tabs and the two active ids), the refs the modelled
  functions use, the handle of the polling interval, and for the model the \<open>terminal_cwd\<close>
  invocations made so far and which of them have not settled.
\<close>

record App =
  projects :: "Project list"
  tabs :: "TerminalTab list"
  activeProjectId :: "jsstring option"
  activeTabId :: "jsstring option"
  runtimeSessions :: "jsstring \<Rightarrow> RuntimeSession option"
  activeTerminalCwd :: "jsstring option"
  cwdPollTimer :: "nat option"
  app_invocations :: "app_invocation list"
  cwd_pending :: "nat \<Rightarrow> bool"

definition projectTabs :: "App \<Rightarrow> TerminalTab list" where
  "projectTabs st =
     (case activeProjectId st of
        None \<Rightarrow> []
      | Some pid \<Rightarrow> if pid = [] then [] else filter (\<lambda>tab. projectId tab = pid) (tabs st))"

definition activeTab :: "App \<Rightarrow> TerminalTab option" where
  "activeTab st =
     (case find (\<lambda>tab. Some (tab_id tab) = activeTabId st) (tabs st) of
        Some tab \<Rightarrow> Some tab
      | None \<Rightarrow> (case projectTabs st of [] \<Rightarrow> None | tab # _ \<Rightarrow> Some tab))"

text \<open>\<open>closeTab(tabId)\<close>; \<open>fresh\<close> is the id that \<open>uid("tab")\<close> returns.\<close>

definition closeTab :: "jsstring \<Rightarrow> jsstring \<Rightarrow> App \<Rightarrow> App" where
  "closeTab fresh tid st =
     (case find (\<lambda>item. tab_id item = tid) (tabs st) of
        None \<Rightarrow> st
      | Some tab \<Rightarrow>
          (let tabs1 = filter (\<lambda>item. tab_id item \<noteq> tid) (tabs st);
               tabs2 = (if \<not> list_ex (\<lambda>item. projectId item = projectId tab) tabs1
                        then tabs1 @ [\<lparr> tab_id = fresh, projectId = projectId tab,
                                        title = js ''session-1'' \<rparr>]
                        else tabs1);
               nextActive =
                 (if activeTabId st = Some tid
                  then map_option tab_id (find (\<lambda>item. projectId item = projectId tab) tabs2)
                  else activeTabId st)
           in st\<lparr> tabs := tabs2, runtimeSessions := (runtimeSessions st)(tid := None),
                  activeTabId := nextActive \<rparr>))"

text \<open>\<open>syncActiveTerminalCwd()\<close> up to its \<open>await\<close>, and after it.\<close>

definition syncActiveTerminalCwd :: "App \<Rightarrow> App" where
  "syncActiveTerminalCwd st =
     (case activeTab st of
        None \<Rightarrow> st\<lparr> activeTerminalCwd := None \<rparr>
      | Some tab \<Rightarrow>
          if tab_id tab = [] then st\<lparr> activeTerminalCwd := None \<rparr>
          else st\<lparr> app_invocations := app_invocations st @ [terminal_cwd (tab_id tab)],
                   cwd_pending := (cwd_pending st)(length (app_invocations st) := True) \<rparr>)"

definition cwd_settled :: "thrown + jsstring option \<Rightarrow> App \<Rightarrow> App" where
  "cwd_settled r st =
     (case r of
        Inr cwd \<Rightarrow> st\<lparr> activeTerminalCwd := cwd \<rparr>
      | Inl e \<Rightarrow> st\<lparr> activeTerminalCwd := None \<rparr>)"

text \<open>The watcher of \<open>activeTab.value?.id\<close>, run when a change of the state changes that id.\<close>

definition watch_activeTab :: "App \<Rightarrow> App \<Rightarrow> App" where
  "watch_activeTab old new =
     (if map_option tab_id (activeTab old) \<noteq> map_option tab_id (activeTab new)
      then syncActiveTerminalCwd new else new)"

definition app_onMounted :: "App \<times> window \<Rightarrow> App \<times> window" where
  "app_onMounted s =
     (case s of (st, w) \<Rightarrow>
        (let st1 = syncActiveTerminalCwd st;
             (h, w1) = setTimer CwdInterval w
         in (st1\<lparr> cwdPollTimer := Some h \<rparr>, w1)))"

definition app_onBeforeUnmount :: "App \<times> window \<Rightarrow> App \<times> window" where
  "app_onBeforeUnmount s =
     (case s of (st, w) \<Rightarrow>
        (st, (case cwdPollTimer st of None \<Rightarrow> w | Some h \<Rightarrow> clearTimer h w)))"

datatype app_event =
    AppTimerFired nat
  | CwdSettled nat "thrown + jsstring option"
  | CloseTab jsstring jsstring
  | SelectTab jsstring

fun app_step :: "app_event \<Rightarrow> App \<times> window \<Rightarrow> App \<times> window" where
  "app_step (AppTimerFired h) (st, w) =
     (case timers w h of
        None \<Rightarrow> (st, w)
      | Some (ResizeTimeout tid cols rows) \<Rightarrow> (st, clearTimer h w)
      | Some CwdInterval \<Rightarrow> (syncActiveTerminalCwd st, w))"
| "app_step (CwdSettled i r) (st, w) =
     (if cwd_pending st i
      then (cwd_settled r (st\<lparr> cwd_pending := (cwd_pending st)(i := False) \<rparr>), w)
      else (st, w))"
| "app_step (CloseTab fresh tid) (st, w) = (watch_activeTab st (closeTab fresh tid st), w)"
| "app_step (SelectTab tid) (st, w) = (watch_activeTab st (st\<lparr> activeTabId := Some tid \<rparr>), w)"

definition app_run :: "app_event list \<Rightarrow> App \<times> window \<Rightarrow> App \<times> window" where
  "app_run es s = foldl (\<lambda>q e. app_step e q) s es"

section \<open>States used as examples\<close>

text \<open>
  A mounted panel on which nothing has happened yet, a status with two changed files, and a
  diff library that renders every patch.
\<close>

definition idle_panel :: GitPanel where
  "idle_panel =
     (created True None)\<lparr> diffContainer := Some (TextContent []), diffInstance := True \<rparr>"

definition two_changes :: GitStatusResponse where
  "two_changes =
     \<lparr> repoPath = js ''/repo'', branch = js ''main'', ahead = 0, behind = 0,
       changes = [\<lparr> path = js ''a.txt'', status_c = js ''M'', staged = True, unstaged = False,
                    untracked = False \<rparr>,
                  \<lparr> path = js ''b.txt'', status_c = js ''??'', staged = False, unstaged = False,
                    untracked = True \<rparr>] \<rparr>"

definition clean_tree :: GitStatusResponse where
  "clean_tree =
     \<lparr> repoPath = js ''/repo'', branch = js ''main'', ahead = 0, behind = 0, changes = [] \<rparr>"

definition renders_all :: "jsstring \<Rightarrow> library_outcome" where
  "renders_all patch = Rendered"

definition two_tabs :: App where
  "two_tabs =
     \<lparr> projects = [\<lparr> project_id = js ''p1'', name = js ''project'' \<rparr>,
                   \<lparr> project_id = js ''p2'', name = js ''other'' \<rparr>],
       tabs = [\<lparr> tab_id = js ''t1'', projectId = js ''p1'', title = js ''session-1'' \<rparr>,
               \<lparr> tab_id = js ''t2'', projectId = js ''p2'', title = js ''session-1'' \<rparr>],
       activeProjectId = Some (js ''p1''), activeTabId = Some (js ''t1''),
       runtimeSessions = (\<lambda>t. None), activeTerminalCwd = Some (js ''/repo''),
       cwdPollTimer = None, app_invocations = [], cwd_pending = (\<lambda>i. False) \<rparr>"



definition no_timers :: window where
  "no_timers = \<lparr> timers = (\<lambda>h. None), nextHandle = 1 \<rparr>"

definition diffs_panel :: GitPanel where
  "diffs_panel = idle_panel\<lparr> status := Some two_changes \<rparr>"

text \<open>
  Two bursts on the idle panel, given as what follows the first call of \<open>refresh()\<close>. In
  the first, one further call arrives before the first answer and one after it, and both
  cycles succeed. In the second, one further call arrives after the first answer, and the
  follow-up \<open>git_status\<close> call fails.
\<close>

definition example_burst :: "event list" where
  "example_burst =
     [CallRefresh, StatusSettled 0 (Inr two_changes), CallRefresh,
      BranchesSettled 1 (Inl OtherValue), DiffSettled 2 (Inr (js ''patch'')),
      StatusSettled 3 (Inr clean_tree),
      BranchesSettled 4 (Inr \<lparr> current = js ''main'', branches_r = [js ''main''] \<rparr>)]"

definition failing_burst :: "event list" where
  "failing_burst =
     [StatusSettled 0 (Inr two_changes), CallRefresh,
      BranchesSettled 1 (Inl OtherValue), DiffSettled 2 (Inr (js ''patch'')),
      StatusSettled 3 (Inl OtherValue)]"

section \<open>Invariants used in the proofs\<close>

text \<open>
  The three things a burst depends on: whether a refresh is in flight, whether one is queued,
  and how many \<open>git_status\<close> invocations have been made. \<open>finished\<close> is what the \<open>finally\<close>
  block of \<open>refresh\<close> does to them.
\<close>

definition flags :: "GitPanel \<Rightarrow> bool \<times> bool \<times> nat" where
  "flags p = (refreshInFlight p, refreshQueued p, statusCalls p)"

fun finished :: "bool \<times> bool \<times> nat \<Rightarrow> bool \<times> bool \<times> nat" where
  "finished (f, q, c) = (q, False, if q then c + 1 else c)"

text \<open>
  During a burst that started at \<open>b\<close> invocations: either the follow-up has not been issued,
  and a refresh is queued exactly when a further call has been seen; or it has been issued,
  and nothing is queued.
\<close>

definition burst_inv :: "nat \<Rightarrow> bool \<Rightarrow> GitPanel \<Rightarrow> bool" where
  "burst_inv b seen p =
     ((statusCalls p = b + 1 \<and> refreshQueued p = seen \<and> (seen \<longrightarrow> refreshInFlight p))
      \<or> (statusCalls p = b + 2 \<and> \<not> refreshQueued p \<and> seen))"

text \<open>
  At most one task is suspended; \<open>adds_one p p'\<close> says that \<open>p'\<close> has the suspended tasks
  of \<open>p\<close> and at most one more.
\<close>

definition at_most_one :: "GitPanel \<Rightarrow> bool" where
  "at_most_one p = (\<forall>i j. pending p i \<noteq> None \<longrightarrow> pending p j \<noteq> None \<longrightarrow> i = j)"

definition adds_one :: "GitPanel \<Rightarrow> GitPanel \<Rightarrow> bool" where
  "adds_one p p' = (pending p' = pending p \<or> (\<exists>n t. pending p' = (pending p)(n := Some t)))"

text \<open>
  The follow-up \<open>git_status\<close> call has been issued and answered: no task waits for a status
  and no refresh is queued.
\<close>

definition follow_up_answered :: "nat \<Rightarrow> GitPanel \<Rightarrow> bool" where
  "follow_up_answered b p =
     (statusCalls p = b + 2 \<and> \<not> refreshQueued p \<and> (\<forall>i a. pending p i \<noteq> Some (RefreshStatus a)))"

text \<open>
  The timers of the window that belong to a pane, or to the app, are the one whose handle
  the component holds.
\<close>

definition pane_inv :: "TerminalPane \<times> window \<Rightarrow> bool" where
  "pane_inv s = (\<forall>h cols rows. timers (snd s) h = Some (ResizeTimeout (tabId (fst s)) cols rows)
                    \<longrightarrow> resizeDebounce (fst s) = Some h)"

definition app_inv :: "App \<times> window \<Rightarrow> bool" where
  "app_inv s = (\<forall>h. timers (snd s) h = Some CwdInterval \<longrightarrow> cwdPollTimer (fst s) = Some h)"

text \<open>
  What can still reach the app after it has been unmounted: a timer of the window, or the
  answer to a poll that was in flight. \<open>cwdCalls\<close> counts the \<open>terminal_cwd\<close> invocations.
\<close>

fun settles_only :: "app_event \<Rightarrow> bool" where
  "settles_only (AppTimerFired h) = True"
| "settles_only (CwdSettled i r) = True"
| "settles_only _ = False"

definition cwdCalls :: "App \<Rightarrow> nat" where
  "cwdCalls st = length (app_invocations st)"

section \<open>Frame lemmas\<close>

lemma invoke_simps [simp]:
  "status (invoke c t p) = status p"
  "selectedPath (invoke c t p) = selectedPath p"
  "diffContainer (invoke c t p) = diffContainer p"
  "diffInstance (invoke c t p) = diffInstance p"
  "loadingDiff (invoke c t p) = loadingDiff p"
  "diffToken (invoke c t p) = diffToken p"
  "refreshInFlight (invoke c t p) = refreshInFlight p"
  "refreshQueued (invoke c t p) = refreshQueued p"
  "branches (invoke c t p) = branches p"
  "currentBranch (invoke c t p) = currentBranch p"
  "error (invoke c t p) = error p"
  "invocations (invoke c t p) = invocations p @ [c]"
  "pending (invoke c t p) = (pending p)(length (invocations p) := Some t)"
  by (simp_all add: invoke_def)

lemma resume_simps [simp]:
  "status (resume a p) = status p"
  "selectedPath (resume a p) = selectedPath p"
  "diffContainer (resume a p) = diffContainer p"
  "diffInstance (resume a p) = diffInstance p"
  "loadingDiff (resume a p) = loadingDiff p"
  "diffToken (resume a p) = diffToken p"
  "refreshInFlight (resume a p) = refreshInFlight p"
  "refreshQueued (resume a p) = refreshQueued p"
  "branches (resume a p) = branches p"
  "currentBranch (resume a p) = currentBranch p"
  "error (resume a p) = error p"
  "invocations (resume a p) = invocations p"
  "pending (resume a p) = pending p"
  by (cases a; simp)+

lemma taken_simps [simp]:
  "status (taken i p) = status p"
  "selectedPath (taken i p) = selectedPath p"
  "diffContainer (taken i p) = diffContainer p"
  "diffInstance (taken i p) = diffInstance p"
  "loadingDiff (taken i p) = loadingDiff p"
  "diffToken (taken i p) = diffToken p"
  "refreshInFlight (taken i p) = refreshInFlight p"
  "refreshQueued (taken i p) = refreshQueued p"
  "branches (taken i p) = branches p"
  "currentBranch (taken i p) = currentBranch p"
  "error (taken i p) = error p"
  "invocations (taken i p) = invocations p"
  "pending (taken i p) = (pending p)(i := None)"
  by (simp_all add: taken_def)

lemma refresh_simps [simp]:
  "status (refresh a p) = status p"
  "selectedPath (refresh a p) = selectedPath p"
  "diffContainer (refresh a p) = diffContainer p"
  "diffInstance (refresh a p) = diffInstance p"
  "loadingDiff (refresh a p) = loadingDiff p"
  "diffToken (refresh a p) = diffToken p"
  "branches (refresh a p) = branches p"
  "currentBranch (refresh a p) = currentBranch p"
  by (simp_all add: refresh_def)

lemma refresh_finally_simps [simp]:
  "status (refresh_finally a p) = status p"
  "selectedPath (refresh_finally a p) = selectedPath p"
  "diffContainer (refresh_finally a p) = diffContainer p"
  "diffInstance (refresh_finally a p) = diffInstance p"
  "loadingDiff (refresh_finally a p) = loadingDiff p"
  "diffToken (refresh_finally a p) = diffToken p"
  "branches (refresh_finally a p) = branches p"
  "currentBranch (refresh_finally a p) = currentBranch p"
  by (simp_all add: refresh_finally_def Let_def)

lemma renderEmpty_simps [simp]:
  "status (renderEmpty m p) = status p"
  "selectedPath (renderEmpty m p) = selectedPath p"
  "diffInstance (renderEmpty m p) = diffInstance p"
  "loadingDiff (renderEmpty m p) = loadingDiff p"
  "diffToken (renderEmpty m p) = diffToken p"
  "refreshInFlight (renderEmpty m p) = refreshInFlight p"
  "refreshQueued (renderEmpty m p) = refreshQueued p"
  "branches (renderEmpty m p) = branches p"
  "currentBranch (renderEmpty m p) = currentBranch p"
  "error (renderEmpty m p) = error p"
  "invocations (renderEmpty m p) = invocations p"
  "pending (renderEmpty m p) = pending p"
  by (simp_all add: renderEmpty_def split: option.splits)

lemma loadDiff_simps [simp]:
  "status (loadDiff pth k p) = status p"
  "selectedPath (loadDiff pth k p) = selectedPath p"
  "diffContainer (loadDiff pth k p) = diffContainer p"
  "diffInstance (loadDiff pth k p) = diffInstance p"
  "branches (loadDiff pth k p) = branches p"
  "currentBranch (loadDiff pth k p) = currentBranch p"
  by (simp_all add: loadDiff_def split: option.splits prod.splits)

lemma render_result_simps [simp]:
  "status (render_result L r p) = status p"
  "selectedPath (render_result L r p) = selectedPath p"
  "diffInstance (render_result L r p) = diffInstance p"
  "loadingDiff (render_result L r p) = loadingDiff p"
  "diffToken (render_result L r p) = diffToken p"
  "refreshInFlight (render_result L r p) = refreshInFlight p"
  "refreshQueued (render_result L r p) = refreshQueued p"
  "branches (render_result L r p) = branches p"
  "currentBranch (render_result L r p) = currentBranch p"
  "error (render_result L r p) = error p"
  "invocations (render_result L r p) = invocations p"
  "pending (render_result L r p) = pending p"
  by (simp_all add: render_result_def renderDiffFromPatch_def split: sum.splits library_outcome.splits)

lemma loadDiff_settled_simps [simp]:
  "status (loadDiff_settled L tok k r p) = status p"
  "selectedPath (loadDiff_settled L tok k r p) = selectedPath p"
  "diffToken (loadDiff_settled L tok k r p) = diffToken p"
  "branches (loadDiff_settled L tok k r p) = branches p"
  "currentBranch (loadDiff_settled L tok k r p) = currentBranch p"
  by (simp_all add: loadDiff_settled_def Let_def split: option.splits)

lemma selectedPath_branches_settled:
  "selectedPath (refresh_branches_settled s a rb p) =
     (case changes s of [] \<Rightarrow> None
      | first # _ \<Rightarrow> if list_ex (\<lambda>change. Some (path change) = selectedPath p) (changes s)
                     then selectedPath p else Some (path first))"
  by (simp add: refresh_branches_settled_def Let_def split: list.splits option.splits sum.splits)

lemma statusCalls_update [simp]:
  "statusCalls (p\<lparr> props_open := v_props_open \<rparr>) = statusCalls p"
  "statusCalls (p\<lparr> props_repoPath := v_props_repoPath \<rparr>) = statusCalls p"
  "statusCalls (p\<lparr> loading := v_loading \<rparr>) = statusCalls p"
  "statusCalls (p\<lparr> loadingDiff := v_loadingDiff \<rparr>) = statusCalls p"
  "statusCalls (p\<lparr> error := v_error \<rparr>) = statusCalls p"
  "statusCalls (p\<lparr> status := v_status \<rparr>) = statusCalls p"
  "statusCalls (p\<lparr> selectedPath := v_selectedPath \<rparr>) = statusCalls p"
  "statusCalls (p\<lparr> diffContainer := v_diffContainer \<rparr>) = statusCalls p"
  "statusCalls (p\<lparr> lastRepoPath := v_lastRepoPath \<rparr>) = statusCalls p"
  "statusCalls (p\<lparr> commitLoading := v_commitLoading \<rparr>) = statusCalls p"
  "statusCalls (p\<lparr> commitMessage := v_commitMessage \<rparr>) = statusCalls p"
  "statusCalls (p\<lparr> branchLoading := v_branchLoading \<rparr>) = statusCalls p"
  "statusCalls (p\<lparr> checkoutLoading := v_checkoutLoading \<rparr>) = statusCalls p"
  "statusCalls (p\<lparr> branches := v_branches \<rparr>) = statusCalls p"
  "statusCalls (p\<lparr> currentBranch := v_currentBranch \<rparr>) = statusCalls p"
  "statusCalls (p\<lparr> branchModalOpen := v_branchModalOpen \<rparr>) = statusCalls p"
  "statusCalls (p\<lparr> branchQuery := v_branchQuery \<rparr>) = statusCalls p"
  "statusCalls (p\<lparr> diffInstance := v_diffInstance \<rparr>) = statusCalls p"
  "statusCalls (p\<lparr> refreshInFlight := v_refreshInFlight \<rparr>) = statusCalls p"
  "statusCalls (p\<lparr> refreshQueued := v_refreshQueued \<rparr>) = statusCalls p"
  "statusCalls (p\<lparr> diffToken := v_diffToken \<rparr>) = statusCalls p"
  "statusCalls (p\<lparr> pending := v_pending \<rparr>) = statusCalls p"
  by (simp_all add: statusCalls_def)

lemma branchesCalls_update [simp]:
  "branchesCalls (p\<lparr> props_open := v_props_open \<rparr>) = branchesCalls p"
  "branchesCalls (p\<lparr> props_repoPath := v_props_repoPath \<rparr>) = branchesCalls p"
  "branchesCalls (p\<lparr> loading := v_loading \<rparr>) = branchesCalls p"
  "branchesCalls (p\<lparr> loadingDiff := v_loadingDiff \<rparr>) = branchesCalls p"
  "branchesCalls (p\<lparr> error := v_error \<rparr>) = branchesCalls p"
  "branchesCalls (p\<lparr> status := v_status \<rparr>) = branchesCalls p"
  "branchesCalls (p\<lparr> selectedPath := v_selectedPath \<rparr>) = branchesCalls p"
  "branchesCalls (p\<lparr> diffContainer := v_diffContainer \<rparr>) = branchesCalls p"
  "branchesCalls (p\<lparr> lastRepoPath := v_lastRepoPath \<rparr>) = branchesCalls p"
  "branchesCalls (p\<lparr> commitLoading := v_commitLoading \<rparr>) = branchesCalls p"
  "branchesCalls (p\<lparr> commitMessage := v_commitMessage \<rparr>) = branchesCalls p"
  "branchesCalls (p\<lparr> branchLoading := v_branchLoading \<rparr>) = branchesCalls p"
  "branchesCalls (p\<lparr> checkoutLoading := v_checkoutLoading \<rparr>) = branchesCalls p"
  "branchesCalls (p\<lparr> branches := v_branches \<rparr>) = branchesCalls p"
  "branchesCalls (p\<lparr> currentBranch := v_currentBranch \<rparr>) = branchesCalls p"
  "branchesCalls (p\<lparr> branchModalOpen := v_branchModalOpen \<rparr>) = branchesCalls p"
  "branchesCalls (p\<lparr> branchQuery := v_branchQuery \<rparr>) = branchesCalls p"
  "branchesCalls (p\<lparr> diffInstance := v_diffInstance \<rparr>) = branchesCalls p"
  "branchesCalls (p\<lparr> refreshInFlight := v_refreshInFlight \<rparr>) = branchesCalls p"
  "branchesCalls (p\<lparr> refreshQueued := v_refreshQueued \<rparr>) = branchesCalls p"
  "branchesCalls (p\<lparr> diffToken := v_diffToken \<rparr>) = branchesCalls p"
  "branchesCalls (p\<lparr> pending := v_pending \<rparr>) = branchesCalls p"
  by (simp_all add: branchesCalls_def)

lemma statusCalls_simps [simp]:
  "statusCalls (invoke c t p) = statusCalls p + (case c of git_status _ \<Rightarrow> 1 | _ \<Rightarrow> 0)"
  "statusCalls (resume a p) = statusCalls p"
  "statusCalls (taken i p) = statusCalls p"
  "statusCalls (renderEmpty m p) = statusCalls p"
  "statusCalls (render_result L r p) = statusCalls p"
  by (simp_all add: statusCalls_def split: invocation.splits)

lemma branchesCalls_simps [simp]:
  "branchesCalls (invoke c t p) = branchesCalls p + (case c of git_branches _ \<Rightarrow> 1 | _ \<Rightarrow> 0)"
  "branchesCalls (resume a p) = branchesCalls p"
  "branchesCalls (taken i p) = branchesCalls p"
  "branchesCalls (renderEmpty m p) = branchesCalls p"
  "branchesCalls (render_result L r p) = branchesCalls p"
  by (simp_all add: branchesCalls_def split: invocation.splits)

lemma branchesCalls_refresh [simp]: "branchesCalls (refresh a p) = branchesCalls p"
  by (simp add: refresh_def)

lemma branchesCalls_refresh_finally [simp]:
  "branchesCalls (refresh_finally a p) = branchesCalls p"
  by (simp add: refresh_finally_def Let_def)

lemma branchesCalls_loadDiff [simp]: "branchesCalls (loadDiff pth k p) = branchesCalls p"
  by (simp add: loadDiff_def split: option.splits prod.splits)

lemma error_refresh_finally [simp]:
  "error p = None \<Longrightarrow> error (refresh_finally a p) = None"
  by (simp add: refresh_finally_def refresh_def Let_def)

lemma error_loadDiff [simp]:
  "error p = None \<Longrightarrow> error (loadDiff pth k p) = None"
  by (simp add: loadDiff_def split: option.splits prod.splits)

lemma branches_settled_fields:
  "status (refresh_branches_settled s a rb p) = status p"
  "branches (refresh_branches_settled s a rb p) =
     (case rb of Inr response \<Rightarrow> branches_r response | Inl e \<Rightarrow> [])"
  "currentBranch (refresh_branches_settled s a rb p) =
     (case rb of Inr response \<Rightarrow> current response | Inl e \<Rightarrow> [])"
  "branchesCalls (refresh_branches_settled s a rb p) = branchesCalls p"
  "error p = None \<Longrightarrow> error (refresh_branches_settled s a rb p) = None"
  by (cases rb; cases "changes s";
      simp add: refresh_branches_settled_def Let_def split: option.splits)+

lemmas eval_defs = run_def idle_panel_def created_def refresh_def invoke_def taken_def
        refresh_status_settled_def refresh_branches_settled_def refresh_finally_def
        loadDiff_def loadDiff_target_def loadDiff_settled_def render_result_def
        renderDiffFromPatch_def renderEmpty_def messageOr_def renders_all_def
        two_changes_def clean_tree_def statusCalls_def js_def trim_def isWhiteSpace_def Let_def

section \<open>Refresh coalescing\<close>

lemma flags_update [simp]:
  "flags (p\<lparr> loading := v1 \<rparr>) = flags p"
  "flags (p\<lparr> error := v2 \<rparr>) = flags p"
  "flags (p\<lparr> status := v3 \<rparr>) = flags p"
  "flags (p\<lparr> lastRepoPath := v4 \<rparr>) = flags p"
  "flags (p\<lparr> branchLoading := v5 \<rparr>) = flags p"
  "flags (p\<lparr> branches := v6 \<rparr>) = flags p"
  "flags (p\<lparr> currentBranch := v7 \<rparr>) = flags p"
  "flags (p\<lparr> selectedPath := v8 \<rparr>) = flags p"
  "flags (p\<lparr> diffToken := v9 \<rparr>) = flags p"
  "flags (p\<lparr> loadingDiff := v10 \<rparr>) = flags p"
  "flags (p\<lparr> pending := v11 \<rparr>) = flags p"
  "flags (p\<lparr> diffContainer := v12 \<rparr>) = flags p"
  by (simp_all add: flags_def)

lemma flags_simple [simp]:
  "flags (resume a p) = flags p"
  "flags (taken i p) = flags p"
  "flags (renderEmpty m p) = flags p"
  "flags (render_result L r p) = flags p"
  by (simp_all add: flags_def)

lemma flags_invoke [simp]:
  "flags (invoke (git_branches rp) t p) = flags p"
  "flags (invoke (git_diff rp pth sg ut) t p) = flags p"
  by (simp_all add: flags_def)

lemma flags_refresh_finally: "flags (refresh_finally a p) = finished (flags p)"
  by (simp add: refresh_finally_def refresh_def Let_def flags_def)

lemma flags_loadDiff:
  "flags (loadDiff pth (Some a) p) = flags p \<or> flags (loadDiff pth (Some a) p) = finished (flags p)"
  by (simp add: loadDiff_def flags_refresh_finally split: option.splits prod.splits)

lemma flags_status_settled:
  "flags (refresh_status_settled a r p) = flags p
   \<or> flags (refresh_status_settled a r p) = finished (flags p)"
  by (cases r)
     (simp_all add: refresh_status_settled_def Let_def flags_refresh_finally)

lemma flags_branches_settled:
  "flags (refresh_branches_settled s a r p) = flags p
   \<or> flags (refresh_branches_settled s a r p) = finished (flags p)"
proof -
  have "flags (loadDiff pth (Some a) q) = flags p \<or> flags (loadDiff pth (Some a) q) = finished (flags p)"
    if "flags q = flags p" for pth q
    using flags_loadDiff [of pth a q] that by simp
  then show ?thesis
    by (cases r; cases "changes s")
       (simp_all add: refresh_branches_settled_def Let_def flags_refresh_finally
          split: option.splits)
qed

lemma flags_diff_settled:
  "flags (loadDiff_settled L tok k r p) = flags p
   \<or> flags (loadDiff_settled L tok k r p) = finished (flags p)"
  by (cases k) (simp_all add: loadDiff_settled_def Let_def flags_refresh_finally)

lemma flags_settlement:
  assumes "case e of StatusSettled i r \<Rightarrow> True | BranchesSettled i r \<Rightarrow> True
             | DiffSettled i r \<Rightarrow> True | _ \<Rightarrow> False"
  shows "flags (step L e p) = flags p \<or> flags (step L e p) = finished (flags p)"
proof (cases e)
  case (StatusSettled i r)
  then show ?thesis
    using flags_status_settled [of _ r "taken i p"]
    by (auto split: option.splits task.splits)
next
  case (BranchesSettled i r)
  then show ?thesis
    using flags_branches_settled [of _ _ r "taken i p"]
    by (auto split: option.splits task.splits)
next
  case (DiffSettled i r)
  then show ?thesis
    using flags_diff_settled [of L _ _ r "taken i p"]
    by (auto split: option.splits task.splits)
qed (use assms in simp_all)

lemma burst_event_cases:
  assumes "burst_event b e p"
  obtains (call) "e = CallRefresh" "refreshInFlight p" "statusCalls p = b + 1"
  | (settle) "e \<noteq> CallRefresh"
      "case e of StatusSettled i r \<Rightarrow> True | BranchesSettled i r \<Rightarrow> True
         | DiffSettled i r \<Rightarrow> True | _ \<Rightarrow> False"
  using assms by (cases e) auto

lemma burst_inv_step:
  assumes "burst_event b e p" and "burst_inv b seen p"
  shows "burst_inv b (seen \<or> e = CallRefresh) (step L e p)"
  using assms(1)
proof (cases rule: burst_event_cases)
  case call
  then have "step L e p = p\<lparr> refreshQueued := True \<rparr>" by (simp add: refresh_def)
  with call assms(2) show ?thesis by (auto simp: burst_inv_def)
next
  case settle
  from flags_settlement [OF settle(2), of L p] settle(1) assms(2) show ?thesis
    by (auto simp: burst_inv_def flags_def split: if_splits)
qed

lemma burst_inv_run:
  "burst L b es p \<Longrightarrow> burst_inv b seen p \<Longrightarrow>
   burst_inv b (seen \<or> CallRefresh \<in> set es) (run L es p)"
proof (induction es arbitrary: p seen)
  case Nil
  then show ?case by (simp add: run_def)
next
  case (Cons e es)
  from Cons.prems have ev: "burst_event b e p" and rest: "burst L b es (step L e p)" by simp_all
  have "burst_inv b ((seen \<or> e = CallRefresh) \<or> CallRefresh \<in> set es) (run L es (step L e p))"
    by (rule Cons.IH [OF rest burst_inv_step [OF ev Cons.prems(2)]])
  moreover have "run L (e # es) p = run L es (step L e p)" by (simp add: run_def)
  moreover have "((seen \<or> e = CallRefresh) \<or> CallRefresh \<in> set es) = (seen \<or> CallRefresh \<in> set (e # es))"
    by auto
  ultimately show ?case by simp
qed

lemma run_append: "run L (es1 @ es2) p = run L es2 (run L es1 p)"
  by (simp add: run_def)

lemma burst_append:
  "burst L b (es1 @ es2) p \<longleftrightarrow> burst L b es1 p \<and> burst L b es2 (run L es1 p)"
  by (induction es1 arbitrary: p) (simp_all add: run_def)

lemma adds_one_refl [simp]: "adds_one p p"
  by (simp add: adds_one_def)

lemma adds_one_update [simp]:
  "adds_one p (q\<lparr> loading := v1 \<rparr>) = adds_one p q"
  "adds_one p (q\<lparr> error := v2 \<rparr>) = adds_one p q"
  "adds_one p (q\<lparr> status := v3 \<rparr>) = adds_one p q"
  "adds_one p (q\<lparr> lastRepoPath := v4 \<rparr>) = adds_one p q"
  "adds_one p (q\<lparr> branchLoading := v5 \<rparr>) = adds_one p q"
  "adds_one p (q\<lparr> branches := v6 \<rparr>) = adds_one p q"
  "adds_one p (q\<lparr> currentBranch := v7 \<rparr>) = adds_one p q"
  "adds_one p (q\<lparr> selectedPath := v8 \<rparr>) = adds_one p q"
  "adds_one p (q\<lparr> diffToken := v9 \<rparr>) = adds_one p q"
  "adds_one p (q\<lparr> loadingDiff := v10 \<rparr>) = adds_one p q"
  "adds_one p (q\<lparr> refreshInFlight := v11 \<rparr>) = adds_one p q"
  "adds_one p (q\<lparr> refreshQueued := v12 \<rparr>) = adds_one p q"
  "adds_one p (resume a q) = adds_one p q"
  "adds_one p (renderEmpty m q) = adds_one p q"
  "adds_one p (render_result L r q) = adds_one p q"
  by (simp_all add: adds_one_def)

lemma adds_one_invoke:
  "pending q = pending p \<Longrightarrow> adds_one p (invoke c t q)"
  by (auto simp: adds_one_def)

lemma adds_one_refresh: "pending q = pending p \<Longrightarrow> adds_one p (refresh a q)"
  by (simp add: refresh_def adds_one_invoke) (simp add: adds_one_def)

lemma adds_one_refresh_finally: "pending q = pending p \<Longrightarrow> adds_one p (refresh_finally a q)"
  by (simp add: refresh_finally_def Let_def adds_one_refresh) (simp add: adds_one_def)

lemma adds_one_loadDiff: "pending q = pending p \<Longrightarrow> adds_one p (loadDiff pth k q)"
  by (simp add: loadDiff_def adds_one_invoke adds_one_refresh_finally split: option.splits prod.splits)
     (simp add: adds_one_def)

lemma adds_one_status_settled: "adds_one p (refresh_status_settled a r p)"
  by (cases r)
     (simp_all add: refresh_status_settled_def Let_def adds_one_invoke adds_one_refresh_finally)

lemma adds_one_branches_settled: "adds_one p (refresh_branches_settled s a r p)"
  by (cases r; cases "changes s")
     (simp_all add: refresh_branches_settled_def Let_def adds_one_refresh_finally
        adds_one_loadDiff split: option.splits)

lemma adds_one_diff_settled: "adds_one p (loadDiff_settled L tok k r p)"
  by (cases k) (simp_all add: loadDiff_settled_def Let_def adds_one_refresh_finally)

lemma at_most_one_taken:
  assumes "at_most_one p" and "pending p i \<noteq> None" and "adds_one (taken i p) q"
  shows "at_most_one q"
proof -
  have empty: "pending (taken i p) j = None" for j
    using assms(1,2) by (auto simp: at_most_one_def)
  from assms(3) show ?thesis
    unfolding adds_one_def at_most_one_def using empty by (auto split: if_splits)
qed

lemma at_most_one_step:
  assumes "burst_event b e p" and "at_most_one p"
  shows "at_most_one (step L e p)"
proof (cases e)
  case CallRefresh
  with assms have "step L e p = p\<lparr> refreshQueued := True \<rparr>" by (simp add: refresh_def)
  with assms(2) show ?thesis by (simp add: at_most_one_def)
next
  case (StatusSettled i r)
  with assms show ?thesis
    by (auto split: option.splits task.splits
          intro: at_most_one_taken [OF _ _ adds_one_status_settled])
next
  case (BranchesSettled i r)
  with assms show ?thesis
    by (auto split: option.splits task.splits
          intro: at_most_one_taken [OF _ _ adds_one_branches_settled])
next
  case (DiffSettled i r)
  with assms show ?thesis
    by (auto split: option.splits task.splits
          intro: at_most_one_taken [OF _ _ adds_one_diff_settled])
qed (use assms in simp_all)

lemma at_most_one_run:
  "burst L b es p \<Longrightarrow> at_most_one p \<Longrightarrow> at_most_one (run L es p)"
proof (induction es arbitrary: p)
  case Nil
  then show ?case by (simp add: run_def)
next
  case (Cons e es)
  from Cons.prems have ev: "burst_event b e p" and rest: "burst L b es (step L e p)" by simp_all
  have "at_most_one (step L e p)" by (rule at_most_one_step [OF ev Cons.prems(2)])
  with Cons.IH [OF rest] show ?case by (simp add: run_def)
qed

lemma refresh_finally_not_queued:
  "\<not> refreshQueued p \<Longrightarrow>
   refresh_finally a p = resume a (p\<lparr> loading := False, refreshInFlight := False \<rparr>)"
  by (simp add: refresh_finally_def Let_def)

lemma follow_up_update [simp]:
  "follow_up_answered b (q\<lparr> loading := v1 \<rparr>) = follow_up_answered b q"
  "follow_up_answered b (q\<lparr> error := v2 \<rparr>) = follow_up_answered b q"
  "follow_up_answered b (q\<lparr> branchLoading := v5 \<rparr>) = follow_up_answered b q"
  "follow_up_answered b (q\<lparr> branches := v6 \<rparr>) = follow_up_answered b q"
  "follow_up_answered b (q\<lparr> currentBranch := v7 \<rparr>) = follow_up_answered b q"
  "follow_up_answered b (q\<lparr> selectedPath := v8 \<rparr>) = follow_up_answered b q"
  "follow_up_answered b (q\<lparr> diffToken := v9 \<rparr>) = follow_up_answered b q"
  "follow_up_answered b (q\<lparr> loadingDiff := v10 \<rparr>) = follow_up_answered b q"
  "follow_up_answered b (q\<lparr> refreshInFlight := v11 \<rparr>) = follow_up_answered b q"
  "follow_up_answered b (resume a q) = follow_up_answered b q"
  "follow_up_answered b (renderEmpty m q) = follow_up_answered b q"
  "follow_up_answered b (render_result L r q) = follow_up_answered b q"
  by (simp_all add: follow_up_answered_def)

lemma follow_up_taken: "follow_up_answered b p \<Longrightarrow> follow_up_answered b (taken i p)"
  by (simp add: follow_up_answered_def)

lemma follow_up_finally:
  "follow_up_answered b p \<Longrightarrow> follow_up_answered b (refresh_finally a p)"
  by (simp add: follow_up_answered_def refresh_finally_not_queued)

lemma follow_up_loadDiff:
  "follow_up_answered b p \<Longrightarrow> follow_up_answered b (loadDiff pth k p)"
  by (auto simp: loadDiff_def follow_up_finally split: option.splits prod.splits)
     (simp_all add: follow_up_answered_def)

lemma follow_up_branches_settled:
  "follow_up_answered b p \<Longrightarrow> follow_up_answered b (refresh_branches_settled s a r p)"
  by (cases r; cases "changes s")
     (simp_all add: refresh_branches_settled_def Let_def follow_up_finally follow_up_loadDiff
        split: option.splits)

lemma follow_up_diff_settled:
  "follow_up_answered b p \<Longrightarrow> follow_up_answered b (loadDiff_settled L tok k r p)"
  by (cases k) (simp_all add: loadDiff_settled_def Let_def follow_up_finally)

lemma status_branches_settled [simp]:
  "status (refresh_branches_settled s a r p) = status p"
  by (rule branches_settled_fields)

lemma follow_up_step:
  assumes "burst_event b e p" and "follow_up_answered b p"
  shows "follow_up_answered b (step L e p) \<and> status (step L e p) = status p"
proof (cases e)
  case CallRefresh
  with assms show ?thesis by (simp add: follow_up_answered_def)
next
  case (StatusSettled i r)
  with assms show ?thesis by (auto simp: follow_up_answered_def split: option.splits task.splits)
next
  case (BranchesSettled i r)
  with assms show ?thesis
    by (auto split: option.splits task.splits
          intro: follow_up_branches_settled follow_up_taken)
next
  case (DiffSettled i r)
  with assms show ?thesis
    by (auto split: option.splits task.splits
          intro: follow_up_diff_settled follow_up_taken)
qed (use assms in simp_all)

lemma follow_up_run:
  "burst L b es p \<Longrightarrow> follow_up_answered b p \<Longrightarrow>
   follow_up_answered b (run L es p) \<and> status (run L es p) = status p"
proof (induction es arbitrary: p)
  case Nil
  then show ?case by (simp add: run_def)
next
  case (Cons e es)
  from Cons.prems have ev: "burst_event b e p" and rest: "burst L b es (step L e p)" by simp_all
  note st = follow_up_step [OF ev Cons.prems(2), of L]
  have "follow_up_answered b (run L es (step L e p))
      \<and> status (run L es (step L e p)) = status (step L e p)"
    using Cons.IH [OF rest] st by simp
  with st show ?case by (simp add: run_def)
qed

lemma follow_up_status_settled:
  assumes "at_most_one p" and "pending p i = Some (RefreshStatus a)"
    and "statusCalls p = b + 2" and "\<not> refreshQueued p"
  shows "follow_up_answered b (step L (StatusSettled i (Inr s)) p)
       \<and> status (step L (StatusSettled i (Inr s)) p) = Some s"
proof -
  have empty: "pending (taken i p) j = None" for j
    using assms(1,2) by (auto simp: at_most_one_def)
  show ?thesis
    using assms(2,3,4) empty
    by (simp add: refresh_status_settled_def follow_up_answered_def)
qed

text \<open>
  C1, as the code has it. Take a panel with no refresh in flight or queued and no suspended
  task, a first call of \<open>refresh()\<close>, and then any events \<open>es\<close> in which every further call
  of \<open>refresh()\<close> is made while the first cycle is in flight and everything else is the
  backend's answer to an invocation of the cycle; let at least one further call occur and
  let no refresh be in flight at the end. Then exactly two \<open>git_status\<close> invocations have
  been made; each further call was made when the follow-up invocation had not been issued
  yet; and if the follow-up invocation is answered with a status \<open>s\<close>, no call of the burst
  comes after that answer and the status shown at the end is \<open>s\<close>.
\<close>

theorem refresh_coalescing:
  "\<not> refreshInFlight p0 \<and> \<not> refreshQueued p0 \<and> (\<forall>i. pending p0 i = None)
   \<and> burst L (statusCalls p0) es (refresh NoAwaiter p0)
   \<and> CallRefresh \<in> set es
   \<and> \<not> refreshInFlight (run L es (refresh NoAwaiter p0)) \<Longrightarrow>
     statusCalls (run L es (refresh NoAwaiter p0)) = statusCalls p0 + 2
   \<and> (\<forall>es1 es2. es = es1 @ CallRefresh # es2 \<longrightarrow>
         statusCalls (run L (es1 @ [CallRefresh]) (refresh NoAwaiter p0)) = statusCalls p0 + 1)
   \<and> (\<forall>es1 i s es2.
         es = es1 @ StatusSettled i (Inr s) # es2
         \<and> statusCalls (run L es1 (refresh NoAwaiter p0)) = statusCalls p0 + 2 \<longrightarrow>
         CallRefresh \<notin> set es2 \<and> status (run L es (refresh NoAwaiter p0)) = Some s)"
proof -
  assume pre: "\<not> refreshInFlight p0 \<and> \<not> refreshQueued p0 \<and> (\<forall>i. pending p0 i = None)
   \<and> burst L (statusCalls p0) es (refresh NoAwaiter p0)
   \<and> CallRefresh \<in> set es
   \<and> \<not> refreshInFlight (run L es (refresh NoAwaiter p0))"
  let ?b = "statusCalls p0"
  define p1 where "p1 = refresh NoAwaiter p0"
  from pre have idle: "\<not> refreshInFlight p0" "\<not> refreshQueued p0" "\<And>i. pending p0 i = None"
    and burst: "burst L ?b es p1" and called: "CallRefresh \<in> set es"
    and settled: "\<not> refreshInFlight (run L es p1)"
    by (simp_all add: p1_def)
  have inv1: "burst_inv ?b False p1"
    using idle by (simp add: p1_def refresh_def burst_inv_def)
  have one1: "at_most_one p1"
    using idle by (simp add: p1_def refresh_def at_most_one_def)
  have "burst_inv ?b (False \<or> CallRefresh \<in> set es) (run L es p1)"
    by (rule burst_inv_run [OF burst inv1])
  with called settled have count: "statusCalls (run L es p1) = ?b + 2"
    by (auto simp: burst_inv_def)
  have before: "statusCalls (run L (es1 @ [CallRefresh]) p1) = ?b + 1"
    if "es = es1 @ CallRefresh # es2" for es1 es2
  proof -
    from burst that have "burst_event ?b CallRefresh (run L es1 p1)"
      by (simp add: burst_append)
    then show ?thesis by (simp add: run_append run_def refresh_def)
  qed
  have fresh: "CallRefresh \<notin> set es2 \<and> status (run L es p1) = Some s"
    if split: "es = es1 @ StatusSettled i (Inr s) # es2"
      and issued: "statusCalls (run L es1 p1) = ?b + 2" for es1 i s es2
  proof -
    define q where "q = run L es1 p1"
    from burst split have b1: "burst L ?b es1 p1"
      and ev: "burst_event ?b (StatusSettled i (Inr s)) q"
      and b2: "burst L ?b es2 (step L (StatusSettled i (Inr s)) q)"
      by (simp_all add: burst_append q_def)
    have one: "at_most_one q" unfolding q_def by (rule at_most_one_run [OF b1 one1])
    have "burst_inv ?b (False \<or> CallRefresh \<in> set es1) q"
      unfolding q_def by (rule burst_inv_run [OF b1 inv1])
    with issued have nq: "\<not> refreshQueued q" by (auto simp: burst_inv_def q_def)
    from ev obtain a where pend: "pending q i = Some (RefreshStatus a)"
      by (auto split: option.splits task.splits)
    note f = follow_up_status_settled [OF one pend issued [folded q_def] nq, of L s]
    have "status (run L es2 (step L (StatusSettled i (Inr s)) q)) = Some s"
      using follow_up_run [OF b2] f by simp
    then have st: "status (run L es p1) = Some s"
      by (simp add: split run_append q_def run_def)
    have "CallRefresh \<notin> set es2"
    proof
      assume "CallRefresh \<in> set es2"
      then obtain xs ys where es2: "es2 = xs @ CallRefresh # ys" by (auto simp: in_set_conv_decomp)
      let ?q' = "step L (StatusSettled i (Inr s)) q"
      from b2 es2 have bx: "burst L ?b xs ?q'" and call: "burst_event ?b CallRefresh (run L xs ?q')"
        by (simp_all add: burst_append)
      have "follow_up_answered ?b (run L xs ?q')"
        using follow_up_run [OF bx] f by simp
      with call show False by (simp add: follow_up_answered_def)
    qed
    with st show ?thesis by simp
  qed
  show ?thesis
    unfolding p1_def [symmetric] using count before fresh by blast
qed

theorem refresh_coalescing_witness:
  "(\<not> refreshInFlight idle_panel \<and> \<not> refreshQueued idle_panel
      \<and> (\<forall>i. pending idle_panel i = None)
      \<and> burst renders_all (statusCalls idle_panel) example_burst (refresh NoAwaiter idle_panel)
      \<and> CallRefresh \<in> set example_burst
      \<and> \<not> refreshInFlight (run renders_all example_burst (refresh NoAwaiter idle_panel)))
   \<and> statusCalls (run renders_all example_burst (refresh NoAwaiter idle_panel)) = 2
   \<and> status (run renders_all example_burst (refresh NoAwaiter idle_panel)) = Some clean_tree"
proof -
  have hyp: "\<not> refreshInFlight idle_panel \<and> \<not> refreshQueued idle_panel
      \<and> (\<forall>i. pending idle_panel i = None)
      \<and> burst renders_all (statusCalls idle_panel) example_burst (refresh NoAwaiter idle_panel)
      \<and> CallRefresh \<in> set example_burst
      \<and> \<not> refreshInFlight (run renders_all example_burst (refresh NoAwaiter idle_panel))"
    by (simp add: example_burst_def eval_defs)
  have split: "example_burst = take 5 example_burst @ StatusSettled 3 (Inr clean_tree) # drop 6 example_burst"
    by (simp add: example_burst_def)
  have issued: "statusCalls (run renders_all (take 5 example_burst) (refresh NoAwaiter idle_panel))
          = statusCalls idle_panel + 2"
    by (simp add: example_burst_def eval_defs)
  have zero: "statusCalls idle_panel = 0" by (simp add: eval_defs)
  from refresh_coalescing [OF hyp] split issued zero
  have "statusCalls (run renders_all example_burst (refresh NoAwaiter idle_panel)) = 2
      \<and> status (run renders_all example_burst (refresh NoAwaiter idle_panel)) = Some clean_tree"
    by auto
  with hyp show ?thesis by blast
qed

text \<open>
  C1 as stated fails when the follow-up \<open>git_status\<close> call fails: two invocations are made,
  but the status shown at the end is the one that had been received before the last call of
  the burst was made.
\<close>

theorem refresh_coalescing_counterexample:
  "burst renders_all (statusCalls idle_panel) failing_burst (refresh NoAwaiter idle_panel)
   \<and> CallRefresh \<in> set failing_burst
   \<and> \<not> refreshInFlight (run renders_all failing_burst (refresh NoAwaiter idle_panel))
   \<and> statusCalls (run renders_all failing_burst (refresh NoAwaiter idle_panel)) = 2
   \<and> status (run renders_all (take 1 failing_burst) (refresh NoAwaiter idle_panel)) = Some two_changes
   \<and> status (run renders_all failing_burst (refresh NoAwaiter idle_panel)) = Some two_changes
   \<and> error (run renders_all failing_burst (refresh NoAwaiter idle_panel))
       = Some (js ''Failed to load git status'')"
  by (simp add: failing_burst_def eval_defs)

section \<open>Diff token staleness\<close>

lemma diffContainer_render_result_cong:
  "diffContainer q = diffContainer p \<Longrightarrow> diffInstance q = diffInstance p \<Longrightarrow>
   diffContainer (render_result L r q) = diffContainer (render_result L r p)"
  by (simp add: render_result_def renderDiffFromPatch_def renderEmpty_def
        split: sum.splits library_outcome.splits option.splits)

lemma stale_settled:
  "tok \<noteq> diffToken q \<Longrightarrow>
     loadDiff_settled L tok None r q = q
   \<and> diffContainer (loadDiff_settled L tok k r q) = diffContainer q
   \<and> loadingDiff (loadDiff_settled L tok k r q) = loadingDiff q
   \<and> diffInstance (loadDiff_settled L tok k r q) = diffInstance q
   \<and> diffToken (loadDiff_settled L tok k r q) = diffToken q"
  by (simp add: loadDiff_settled_def Let_def split: option.splits)

lemma current_settled:
  "diffContainer (loadDiff_settled L (diffToken q) k r q) = diffContainer (render_result L r q)
   \<and> \<not> loadingDiff (loadDiff_settled L (diffToken q) k r q)
   \<and> diffInstance (loadDiff_settled L (diffToken q) k r q) = diffInstance q
   \<and> diffToken (loadDiff_settled L (diffToken q) k r q) = diffToken q"
  by (simp add: loadDiff_settled_def Let_def split: option.splits)

lemma loadDiff_issued:
  "loadDiff_target pth p = Some (st, target) \<Longrightarrow>
     diffToken (loadDiff pth k p) = diffToken p + 1
   \<and> loadingDiff (loadDiff pth k p)
   \<and> invocations (loadDiff pth k p)
       = invocations p @ [git_diff (repoPath st) (path target) False (untracked target)]
   \<and> pending (loadDiff pth k p)
       = (pending p)(length (invocations p) := Some (LoadDiff (diffToken p + 1) k))"
  by (simp add: loadDiff_def)

lemma loadDiff_target_loadDiff [simp]:
  "loadDiff_target pth' (loadDiff pth k p) = loadDiff_target pth' p"
  by (simp add: loadDiff_target_def)

lemma pending_refresh_finally:
  "i < length (invocations p) \<Longrightarrow> pending (refresh_finally a p) i = pending p i"
  by (simp add: refresh_finally_def refresh_def Let_def)

lemma pending_loadDiff_settled:
  "i < length (invocations p) \<Longrightarrow> pending (loadDiff_settled L tok k r p) i = pending p i"
  by (simp add: loadDiff_settled_def Let_def pending_refresh_finally split: option.splits)

text \<open>
  C2. Let a diff request for \<open>pathA\<close> be issued and then, before it settles, one for
  \<open>pathB\<close> (both pass the guard of \<open>loadDiff\<close>, so both reach \<open>git_diff\<close>). Whatever
  the two results are and in whichever order they arrive, the container ends up showing the
  result of B and the loading flag is cleared; the arrival of A's result changes neither the
  container nor the loading flag, and for a request nobody awaits it changes nothing at all
  (the task only leaves the table of suspended tasks).
\<close>

theorem diff_token_staleness:
  "loadDiff_target pathA p \<noteq> None \<and> loadDiff_target pathB p \<noteq> None \<Longrightarrow>
   (let iA = length (invocations p);
        iB = iA + 1;
        pB = loadDiff pathB kB (loadDiff pathA kA p);
        shownB = diffContainer (render_result L rB p);
        afterA = step L (DiffSettled iA rA) pB;
        afterAB = run L [DiffSettled iA rA, DiffSettled iB rB] pB;
        afterB = step L (DiffSettled iB rB) pB;
        afterBA = run L [DiffSettled iB rB, DiffSettled iA rA] pB
    in diffContainer pB = diffContainer p \<and> loadingDiff pB
     \<and> diffContainer afterA = diffContainer p \<and> loadingDiff afterA
     \<and> diffContainer afterAB = shownB \<and> \<not> loadingDiff afterAB
     \<and> diffContainer afterB = shownB \<and> \<not> loadingDiff afterB
     \<and> diffContainer afterBA = shownB \<and> \<not> loadingDiff afterBA
     \<and> (kA = None \<longrightarrow> afterA = taken iA pB \<and> afterBA = taken iA afterB))"
proof -
  assume issued: "loadDiff_target pathA p \<noteq> None \<and> loadDiff_target pathB p \<noteq> None"
  then obtain stA tA stB tB where
    A: "loadDiff_target pathA p = Some (stA, tA)" and B: "loadDiff_target pathB p = Some (stB, tB)"
    by auto
  let ?iA = "length (invocations p)"
  define pA where "pA = loadDiff pathA kA p"
  define pB where "pB = loadDiff pathB kB pA"
  define afterA where "afterA = step L (DiffSettled ?iA rA) pB"
  define afterAB where "afterAB = step L (DiffSettled (?iA + 1) rB) afterA"
  define afterB where "afterB = step L (DiffSettled (?iA + 1) rB) pB"
  define afterBA where "afterBA = step L (DiffSettled ?iA rA) afterB"
  note a = loadDiff_issued [OF A, of kA, folded pA_def]
  have B': "loadDiff_target pathB pA = Some (stB, tB)" by (simp add: pA_def B)
  note b = loadDiff_issued [OF B', of kB, folded pB_def]
  have tokB: "diffToken pB = diffToken p + 2" and lenB: "length (invocations pB) = ?iA + 2"
    and pendA: "pending pB ?iA = Some (LoadDiff (diffToken p + 1) kA)"
    and pendB: "pending pB (?iA + 1) = Some (LoadDiff (diffToken p + 2) kB)"
    and contB: "diffContainer pB = diffContainer p" and instB: "diffInstance pB = diffInstance p"
    and loadB: "loadingDiff pB"
    using a b by (simp_all add: pA_def pB_def)
  have afterA: "afterA = loadDiff_settled L (diffToken p + 1) kA rA (taken ?iA pB)"
    using pendA by (simp add: afterA_def)
  have staleA: "diffToken p + 1 \<noteq> diffToken (taken ?iA pB)" by (simp add: tokB)
  note sA = stale_settled [OF staleA, where L = L and r = rA and k = kA]
  have A1: "diffContainer afterA = diffContainer p" "loadingDiff afterA"
    "diffInstance afterA = diffInstance p" "diffToken afterA = diffToken p + 2"
    "kA = None \<longrightarrow> afterA = taken ?iA pB"
    using sA contB loadB instB tokB by (simp_all add: afterA)
  have pendB': "pending afterA (?iA + 1) = Some (LoadDiff (diffToken p + 2) kB)"
    using pendB lenB by (simp add: afterA pending_loadDiff_settled)
  have afterAB: "afterAB = loadDiff_settled L (diffToken (taken (?iA + 1) afterA)) kB rB (taken (?iA + 1) afterA)"
    using pendB' A1(4) by (simp add: afterAB_def)
  have AB: "diffContainer afterAB = diffContainer (render_result L rB p)" "\<not> loadingDiff afterAB"
    using current_settled [of L "taken (?iA + 1) afterA" kB rB]
      diffContainer_render_result_cong [of "taken (?iA + 1) afterA" p L rB] A1
    by (simp_all add: afterAB)
  have afterB: "afterB = loadDiff_settled L (diffToken (taken (?iA + 1) pB)) kB rB (taken (?iA + 1) pB)"
    using pendB tokB by (simp add: afterB_def)
  have B1: "diffContainer afterB = diffContainer (render_result L rB p)" "\<not> loadingDiff afterB"
    "diffToken afterB = diffToken p + 2"
    using current_settled [of L "taken (?iA + 1) pB" kB rB]
      diffContainer_render_result_cong [of "taken (?iA + 1) pB" p L rB] contB instB tokB
    by (simp_all add: afterB)
  have pendA': "pending afterB ?iA = Some (LoadDiff (diffToken p + 1) kA)"
    using pendA lenB by (simp add: afterB pending_loadDiff_settled)
  have afterBA: "afterBA = loadDiff_settled L (diffToken p + 1) kA rA (taken ?iA afterB)"
    using pendA' by (simp add: afterBA_def)
  have staleA': "diffToken p + 1 \<noteq> diffToken (taken ?iA afterB)" by (simp add: B1)
  note sA' = stale_settled [OF staleA', where L = L and r = rA and k = kA]
  have BA: "diffContainer afterBA = diffContainer (render_result L rB p)" "\<not> loadingDiff afterBA"
    "kA = None \<longrightarrow> afterBA = taken ?iA afterB"
    using sA' B1 by (simp_all add: afterBA)
  have runAB: "run L [DiffSettled ?iA rA, DiffSettled (?iA + 1) rB] pB = afterAB"
    and runBA: "run L [DiffSettled (?iA + 1) rB, DiffSettled ?iA rA] pB = afterBA"
    by (simp_all add: run_def afterAB_def afterA_def afterBA_def afterB_def)
  show ?thesis
    unfolding Let_def pA_def [symmetric] pB_def [symmetric] runAB runBA
      afterA_def [symmetric] afterB_def [symmetric]
    using contB loadB A1(1,2,5) AB B1(1,2) BA by blast
qed

theorem diff_token_staleness_witness:
  "loadDiff_target (js ''a.txt'') diffs_panel \<noteq> None
   \<and> loadDiff_target (js ''b.txt'') diffs_panel \<noteq> None
   \<and> diffContainer (run renders_all [DiffSettled 1 (Inr (js ''B'')), DiffSettled 0 (Inr (js ''A''))]
        (loadDiff (js ''b.txt'') None (loadDiff (js ''a.txt'') None diffs_panel)))
       = Some (FileDiffOf (js ''B''))
   \<and> diffContainer (run renders_all [DiffSettled 0 (Inr (js ''A'')), DiffSettled 1 (Inr (js ''B''))]
        (loadDiff (js ''b.txt'') None (loadDiff (js ''a.txt'') None diffs_panel)))
       = Some (FileDiffOf (js ''B''))
   \<and> step renders_all (DiffSettled 0 (Inr (js ''A'')))
        (loadDiff (js ''b.txt'') None (loadDiff (js ''a.txt'') None diffs_panel))
       = taken 0 (loadDiff (js ''b.txt'') None (loadDiff (js ''a.txt'') None diffs_panel))"
proof -
  have hyp: "loadDiff_target (js ''a.txt'') diffs_panel \<noteq> None
      \<and> loadDiff_target (js ''b.txt'') diffs_panel \<noteq> None"
    by (simp add: diffs_panel_def eval_defs)
  have shown: "diffContainer (render_result renders_all (Inr (js ''B'')) diffs_panel)
          = Some (FileDiffOf (js ''B''))"
    by (simp add: diffs_panel_def eval_defs)
  have len: "length (invocations diffs_panel) = 0" by (simp add: diffs_panel_def eval_defs)
  from diff_token_staleness [OF hyp, of "None" "None" renders_all "Inr (js ''B'')" "Inr (js ''A'')"]
  show ?thesis using hyp shown len by (simp add: Let_def)
qed

section \<open>Commit validation\<close>

text \<open>
  C3, as the code has it. A commit attempt (with or without amend) whose trimmed message is
  empty, or for which no change is staged, is refused: \<open>commitChanges\<close> returns at its
  first guard, so it issues no \<open>git_commit\<close> invocation and changes nothing. The reason the
  panel shows follows the order of the checks in \<open>commitDisabledReason\<close>: a running commit
  first, then nothing staged, then the empty message.
\<close>

theorem commit_validation:
  "trim (commitMessage p) = [] \<or> stagedCount p = 0 \<Longrightarrow>
     commitChanges amend p = p
   \<and> commitDisabledReason p =
       Some (if commitLoading p then js ''Committing changes''
             else if stagedCount p = 0 then js ''Stage files before commit''
             else js ''Enter a commit message'')"
  by (auto simp: commitChanges_def canCommit_def commitDisabledReason_def)

theorem commit_validation_witness:
  "(trim (commitMessage (idle_panel\<lparr> status := Some two_changes, commitMessage := js ''  '' \<rparr>)) = []
      \<or> stagedCount (idle_panel\<lparr> status := Some two_changes, commitMessage := js ''  '' \<rparr>) = 0)
   \<and> commitChanges True (idle_panel\<lparr> status := Some two_changes, commitMessage := js ''  '' \<rparr>)
       = idle_panel\<lparr> status := Some two_changes, commitMessage := js ''  '' \<rparr>
   \<and> commitDisabledReason (idle_panel\<lparr> status := Some two_changes, commitMessage := js ''  '' \<rparr>)
       = Some (js ''Enter a commit message'')"
  using commit_validation
    [of "idle_panel\<lparr> status := Some two_changes, commitMessage := js ''  '' \<rparr>" True]
  by (simp add: idle_panel_def created_def two_changes_def stagedCount_def trim_def js_def
        isWhiteSpace_def)

text \<open>
  C3 as stated fails: with an empty message and nothing staged, an amend attempt is refused
  for the missing staged files, not for the empty message.
\<close>

theorem commit_validation_counterexample:
  "trim (commitMessage idle_panel) = []
   \<and> commitChanges True idle_panel = idle_panel
   \<and> commitDisabledReason idle_panel = Some (js ''Stage files before commit'')
   \<and> commitDisabledReason idle_panel \<noteq> Some (js ''Enter a commit message'')"
  by (simp add: idle_panel_def created_def trim_def commitDisabledReason_def stagedCount_def
        commitChanges_def canCommit_def js_def)

section \<open>No-op checkout\<close>

text \<open>
  C4. When the trimmed target equals the current branch, \<open>switchBranch\<close> returns without
  any effect: the panel, and with it the list of invocations, is unchanged, so no
  \<open>git_checkout\<close> is issued.
\<close>

theorem noop_checkout:
  "trim b = currentBranch p \<Longrightarrow> switchBranch b p = p"
  by (simp add: switchBranch_def Let_def split: option.splits)

theorem noop_checkout_witness:
  "trim (js '' main '') = currentBranch (idle_panel\<lparr> status := Some two_changes, currentBranch := js ''main'' \<rparr>)
   \<and> switchBranch (js '' main '') (idle_panel\<lparr> status := Some two_changes, currentBranch := js ''main'' \<rparr>)
       = idle_panel\<lparr> status := Some two_changes, currentBranch := js ''main'' \<rparr>"
  using noop_checkout
    [of "js '' main ''" "idle_panel\<lparr> status := Some two_changes, currentBranch := js ''main'' \<rparr>"]
  by (simp add: trim_def js_def isWhiteSpace_def)

section \<open>Teardown cancellation\<close>

lemma pane_step_tabId [simp]: "tabId (fst (pane_step e s)) = tabId (fst s)"
  by (cases e; cases s)
     (auto simp: onResize_def setTimer_def resizeTimeout_def syncPtySize_def onTerminalData_def
        onTerminalExit_def close_settled_def Let_def
        split: option.splits timer.splits prod.splits)

lemma pane_step_inv: "pane_inv s \<Longrightarrow> pane_inv (pane_step e s)"
proof (cases s)
  case (Pair pn w)
  assume inv: "pane_inv s"
  show ?thesis
  proof (cases e)
    case (Resized cols rows)
    with inv Pair show ?thesis
      by (auto simp: pane_inv_def onResize_def setTimer_def clearTimer_def Let_def
            split: option.splits) blast+
  next
    case (TimerFired h)
    with inv Pair show ?thesis
      by (auto simp: pane_inv_def clearTimer_def resizeTimeout_def syncPtySize_def
            split: option.splits timer.splits if_splits)
         (metis option.inject)+
  next
    case (TerminalData tid d)
    with inv Pair show ?thesis by (auto simp: pane_inv_def onTerminalData_def)
  next
    case (TerminalExit tid)
    with inv Pair show ?thesis by (auto simp: pane_inv_def onTerminalExit_def)
  next
    case CloseSettled
    with inv Pair show ?thesis by (auto simp: pane_inv_def close_settled_def)
  qed
qed

lemma pane_run_inv: "pane_inv s \<Longrightarrow> pane_inv (pane_run es s)"
  unfolding pane_run_def by (induction es arbitrary: s) (simp_all add: pane_step_inv)

lemma pane_run_tabId [simp]: "tabId (fst (pane_run es s)) = tabId (fst s)"
  unfolding pane_run_def by (induction es arbitrary: s) auto

lemma pane_unmount_clears:
  assumes "pane_inv s"
  shows "timers (snd (pane_onBeforeUnmount s)) h \<noteq> Some (ResizeTimeout (tabId (fst s)) cols rows)"
  using assms
  by (cases s) (auto simp: pane_inv_def pane_onBeforeUnmount_def clearTimer_def split: option.splits;
      blast)

lemma pane_fired_quiet:
  assumes "\<forall>h cols rows. timers (snd s) h \<noteq> Some (ResizeTimeout (tabId (fst s)) cols rows)"
  shows "resizeCalls (fst (pane_run (map TimerFired hs) s)) = resizeCalls (fst s)"
  using assms
proof (induction hs arbitrary: s)
  case Nil
  then show ?case by (simp add: pane_run_def)
next
  case (Cons h hs)
  obtain pn w where s: "s = (pn, w)" by (cases s)
  let ?s' = "pane_step (TimerFired h) s"
  have same: "fst ?s' = pn"
    using Cons.prems s by (auto split: option.splits timer.splits)
  have still: "\<forall>h' cols rows. timers (snd ?s') h' \<noteq> Some (ResizeTimeout (tabId (fst ?s')) cols rows)"
    using Cons.prems s by (auto simp: clearTimer_def split: option.splits timer.splits)
  have "pane_run (map TimerFired (h # hs)) s = pane_run (map TimerFired hs) ?s'"
    by (simp add: pane_run_def)
  with Cons.IH [OF still] same s show ?case by simp
qed

lemma app_step_inv: "app_inv s \<Longrightarrow> app_inv (app_step e s)"
  by (cases e; cases s)
     (auto simp: app_inv_def clearTimer_def syncActiveTerminalCwd_def cwd_settled_def
        watch_activeTab_def closeTab_def Let_def
        split: option.splits timer.splits sum.splits if_splits)

lemma app_run_inv: "app_inv s \<Longrightarrow> app_inv (app_run es s)"
  unfolding app_run_def by (induction es arbitrary: s) (simp_all add: app_step_inv)

lemma app_mounted_inv:
  "\<forall>h. timers w h \<noteq> Some CwdInterval \<Longrightarrow> app_inv (app_onMounted (st, w))"
  by (auto simp: app_inv_def app_onMounted_def setTimer_def syncActiveTerminalCwd_def Let_def
        split: option.splits)

lemma app_unmount_clears:
  "app_inv s \<Longrightarrow> timers (snd (app_onBeforeUnmount s)) h \<noteq> Some CwdInterval"
  by (cases s) (auto simp: app_inv_def app_onBeforeUnmount_def clearTimer_def split: option.splits)

lemma app_after_quiet:
  assumes "\<forall>h. timers (snd s) h \<noteq> Some CwdInterval" and "list_all settles_only es"
  shows "cwdCalls (fst (app_run es s)) = cwdCalls (fst s)"
  using assms
proof (induction es arbitrary: s)
  case Nil
  then show ?case by (simp add: app_run_def)
next
  case (Cons e es)
  obtain st w where s: "s = (st, w)" by (cases s)
  let ?s' = "app_step e s"
  from Cons.prems have e: "settles_only e" and es: "list_all settles_only es" by simp_all
  have same: "cwdCalls (fst ?s') = cwdCalls st"
    using Cons.prems(1) s e
    by (cases e) (auto simp: cwdCalls_def cwd_settled_def split: option.splits timer.splits sum.splits)
  have still: "\<forall>h. timers (snd ?s') h \<noteq> Some CwdInterval"
    using Cons.prems(1) s e
    by (cases e) (auto simp: clearTimer_def split: option.splits timer.splits)
  have "app_run (e # es) s = app_run es ?s'" by (simp add: app_run_def)
  with Cons.IH [OF still es] same s show ?case by simp
qed

text \<open>
  What the two hooks achieve. From a window that holds no resize timeout of tab \<open>tid\<close> and
  no polling interval: when a mounted pane has gone through any events and its unmount hook
  has run, the window holds no resize timeout of the pane at that moment, and if only timers
  run afterwards no further \<open>resize_terminal\<close> is invoked; when the app has been mounted,
  has gone through any events and its unmount hook has run, the window holds no polling
  interval, and whichever timers run and polls settle afterwards no further \<open>terminal_cwd\<close>
  is invoked.
\<close>

lemma held_timers_cleared:
  "(\<forall>h cols rows. timers w h \<noteq> Some (ResizeTimeout tid cols rows))
   \<and> (\<forall>h. timers w h \<noteq> Some CwdInterval) \<and> list_all settles_only after \<Longrightarrow>
   (let closed = pane_onBeforeUnmount (pane_run es (mounted_pane tid cols0 rows0, w));
        stopped = app_onBeforeUnmount (app_run aes (app_onMounted (st, w)))
    in (\<forall>h cols rows. timers (snd closed) h \<noteq> Some (ResizeTimeout tid cols rows))
     \<and> resizeCalls (fst (pane_run (map TimerFired hs) closed)) = resizeCalls (fst closed)
     \<and> (\<forall>h. timers (snd stopped) h \<noteq> Some CwdInterval)
     \<and> cwdCalls (fst (app_run after stopped)) = cwdCalls (fst stopped))"
proof -
  assume pre: "(\<forall>h cols rows. timers w h \<noteq> Some (ResizeTimeout tid cols rows))
   \<and> (\<forall>h. timers w h \<noteq> Some CwdInterval) \<and> list_all settles_only after"
  define running where "running = pane_run es (mounted_pane tid cols0 rows0, w)"
  define closed where "closed = pane_onBeforeUnmount running"
  define stopped where "stopped = app_onBeforeUnmount (app_run aes (app_onMounted (st, w)))"
  have "pane_inv (mounted_pane tid cols0 rows0, w)"
    using pre by (simp add: pane_inv_def mounted_pane_def)
  then have inv: "pane_inv running" unfolding running_def by (rule pane_run_inv)
  have tid: "tabId (fst running) = tid" by (simp add: running_def mounted_pane_def)
  have tid': "tabId (fst closed) = tid"
    using tid by (cases running) (simp add: closed_def pane_onBeforeUnmount_def)
  have none: "\<forall>h cols rows. timers (snd closed) h \<noteq> Some (ResizeTimeout tid cols rows)"
    using pane_unmount_clears [OF inv] tid by (simp add: closed_def)
  have quiet: "resizeCalls (fst (pane_run (map TimerFired hs) closed)) = resizeCalls (fst closed)"
    by (rule pane_fired_quiet) (simp add: tid' none)
  have "app_inv (app_run aes (app_onMounted (st, w)))"
    using pre by (intro app_run_inv app_mounted_inv) simp
  then have none': "\<forall>h. timers (snd stopped) h \<noteq> Some CwdInterval"
    unfolding stopped_def by (simp add: app_unmount_clears)
  have quiet': "cwdCalls (fst (app_run after stopped)) = cwdCalls (fst stopped)"
    using none' pre by (intro app_after_quiet) simp_all
  show ?thesis
    unfolding Let_def running_def [symmetric] closed_def [symmetric] stopped_def [symmetric]
    using none quiet none' quiet' by blast
qed

text \<open>
  C5 does not hold of the pane. The unmount hook clears the timeout that is pending when it
  runs, but the resize handler stays registered until the emulator is disposed of, which
  happens only after \<open>close_terminal\<close> has settled. Here a mounted pane with no pending
  timeout is unmounted and the emulator then reports a new size: the handler schedules a
  timeout that nothing clears; it is still scheduled after the emulator has been disposed
  of, and when it runs it invokes \<open>resize_terminal\<close> for the closed session.
\<close>

theorem orphaned_resize_timeout:
  "resizeDebounce (mounted_pane (js ''t1'') 80 24) = None
   \<and> timers (snd (pane_run [Resized 100 30]
                     (pane_onBeforeUnmount (mounted_pane (js ''t1'') 80 24, no_timers)))) 1
       = Some (ResizeTimeout (js ''t1'') 100 30)
   \<and> timers (snd (pane_run [Resized 100 30, CloseSettled]
                     (pane_onBeforeUnmount (mounted_pane (js ''t1'') 80 24, no_timers)))) 1
       = Some (ResizeTimeout (js ''t1'') 100 30)
   \<and> disposed (fst (pane_run [Resized 100 30, CloseSettled]
                       (pane_onBeforeUnmount (mounted_pane (js ''t1'') 80 24, no_timers))))
   \<and> pane_invocations (fst (pane_run [Resized 100 30, CloseSettled, TimerFired 1]
                               (pane_onBeforeUnmount (mounted_pane (js ''t1'') 80 24, no_timers))))
       = [open_terminal (js ''t1''), resize_terminal (js ''t1'') 80 24,
          close_terminal (js ''t1''), resize_terminal (js ''t1'') 100 30]"
  by (simp add: pane_run_def mounted_pane_def no_timers_def pane_onBeforeUnmount_def
        onResize_def setTimer_def clearTimer_def close_settled_def resizeTimeout_def
        syncPtySize_def Let_def)

section \<open>Per-session event delivery\<close>

text \<open>
  C6. A pane whose listeners are registered writes the data of a \<open>terminal-data\<close> event,
  and the exit notice for a \<open>terminal-exit\<close> event, to its terminal exactly when the event's
  \<open>tabId\<close> is its own; an event of another tab leaves the pane unchanged.
\<close>

theorem per_session_delivery:
  "listensData pn \<and> listensExit pn \<and> terminal pn = Some out \<Longrightarrow>
     (terminal (fst (pane_step (TerminalData tid d) (pn, w))) = Some (out @ [Write d])
        \<longleftrightarrow> tid = tabId pn)
   \<and> (terminal (fst (pane_step (TerminalExit tid) (pn, w)))
         = Some (out @ [Writeln ([0x0D, 0x0A] @ js ''[process exited]'')])
        \<longleftrightarrow> tid = tabId pn)
   \<and> (tid \<noteq> tabId pn \<longrightarrow>
         pane_step (TerminalData tid d) (pn, w) = (pn, w)
       \<and> pane_step (TerminalExit tid) (pn, w) = (pn, w))"
  by (simp add: onTerminalData_def onTerminalExit_def)


theorem per_session_delivery_witness:
  "(listensData (mounted_pane (js ''t1'') 80 24) \<and> listensExit (mounted_pane (js ''t1'') 80 24)
      \<and> terminal (mounted_pane (js ''t1'') 80 24) = Some [])
   \<and> terminal (fst (pane_step (TerminalData (js ''t1'') (js ''ls'')) (mounted_pane (js ''t1'') 80 24, no_timers)))
       = Some [Write (js ''ls'')]
   \<and> js ''t2'' \<noteq> tabId (mounted_pane (js ''t1'') 80 24)
   \<and> pane_step (TerminalData (js ''t2'') (js ''ls'')) (mounted_pane (js ''t1'') 80 24, no_timers)
       = (mounted_pane (js ''t1'') 80 24, no_timers)
   \<and> pane_step (TerminalExit (js ''t2'')) (mounted_pane (js ''t1'') 80 24, no_timers)
       = (mounted_pane (js ''t1'') 80 24, no_timers)"
  using per_session_delivery
    [of "mounted_pane (js ''t1'') 80 24" "[]" "js ''t1''" "js ''ls''" no_timers]
    per_session_delivery
    [of "mounted_pane (js ''t1'') 80 24" "[]" "js ''t2''" "js ''ls''" no_timers]
  by (simp add: mounted_pane_def js_def)

section \<open>Best-effort branch listing\<close>

text \<open>
  C7, as the code has it. A refresh cycle that starts on a panel with no refresh in flight
  makes one \<open>git_status\<close> invocation. If that call fails, the cycle makes no \<open>git_branches\<close>
  invocation. If it succeeds with \<open>s\<close>, the cycle invokes \<open>git_branches\<close> once, for the
  repository of \<open>s\<close>; whatever the outcome of that call, \<open>s\<close> is the stored status and no
  error is set, and when the call fails the branch list and the current branch are empty.
\<close>

theorem best_effort_branches:
  "\<not> refreshInFlight p0 \<Longrightarrow>
   (let i = length (invocations p0);
        p1 = refresh a p0;
        p2 = step L (StatusSettled i (Inr s)) p1;
        p3 = step L (BranchesSettled (i + 1) rb) p2
    in statusCalls p1 = statusCalls p0 + 1
     \<and> branchesCalls (step L (StatusSettled i (Inl e)) p1) = branchesCalls p0
     \<and> invocations p2 = invocations p1 @ [git_branches (repoPath s)]
     \<and> branchesCalls p3 = branchesCalls p0 + 1
     \<and> status p3 = Some s
     \<and> error p3 = None
     \<and> branches p3 = (case rb of Inr response \<Rightarrow> branches_r response | Inl e \<Rightarrow> [])
     \<and> currentBranch p3 = (case rb of Inr response \<Rightarrow> current response | Inl e \<Rightarrow> []))"
proof -
  assume idle: "\<not> refreshInFlight p0"
  let ?i = "length (invocations p0)"
  define p1 where "p1 = refresh a p0"
  define p2 where "p2 = step L (StatusSettled ?i (Inr s)) p1"
  define p3 where "p3 = step L (BranchesSettled (?i + 1) rb) p2"
  have pend1: "pending p1 ?i = Some (RefreshStatus a)"
    and len1: "length (invocations p1) = ?i + 1"
    and calls1: "statusCalls p1 = statusCalls p0 + 1" "branchesCalls p1 = branchesCalls p0"
    and err1: "error p1 = None"
    using idle by (simp_all add: p1_def refresh_def statusCalls_def branchesCalls_def)
  have fail: "branchesCalls (step L (StatusSettled ?i (Inl e)) p1) = branchesCalls p0"
    using pend1 calls1 by (simp add: refresh_status_settled_def Let_def)
  have p2: "p2 = refresh_status_settled a (Inr s) (taken ?i p1)"
    using pend1 by (simp add: p2_def)
  have pend2: "pending p2 (?i + 1) = Some (RefreshBranches s a)"
    and inv2: "invocations p2 = invocations p1 @ [git_branches (repoPath s)]"
    and st2: "status p2 = Some s" and err2: "error p2 = None"
    and calls2: "branchesCalls p2 = branchesCalls p0 + 1"
    using len1 calls1 err1 by (simp_all add: p2 refresh_status_settled_def)
  have p3: "p3 = refresh_branches_settled s a rb (taken (?i + 1) p2)"
    using pend2 by (simp add: p3_def)
  have f3: "branchesCalls p3 = branchesCalls p0 + 1" "status p3 = Some s" "error p3 = None"
    "branches p3 = (case rb of Inr response \<Rightarrow> branches_r response | Inl e \<Rightarrow> [])"
    "currentBranch p3 = (case rb of Inr response \<Rightarrow> current response | Inl e \<Rightarrow> [])"
    using st2 err2 calls2 by (simp_all add: p3 branches_settled_fields)
  show ?thesis
    unfolding Let_def p1_def [symmetric] p2_def [symmetric] p3_def [symmetric]
    using calls1(1) fail inv2 f3 by blast
qed

theorem best_effort_branches_witness:
  "\<not> refreshInFlight idle_panel
   \<and> invocations (run renders_all [StatusSettled 0 (Inr two_changes), BranchesSettled 1 (Inl OtherValue)]
         (refresh NoAwaiter idle_panel))
       = [git_status None, git_branches (js ''/repo''), git_diff (js ''/repo'') (js ''a.txt'') False False]
   \<and> status (run renders_all [StatusSettled 0 (Inr two_changes), BranchesSettled 1 (Inl OtherValue)]
         (refresh NoAwaiter idle_panel)) = Some two_changes
   \<and> error (run renders_all [StatusSettled 0 (Inr two_changes), BranchesSettled 1 (Inl OtherValue)]
         (refresh NoAwaiter idle_panel)) = None
   \<and> branches (run renders_all [StatusSettled 0 (Inr two_changes), BranchesSettled 1 (Inl OtherValue)]
         (refresh NoAwaiter idle_panel)) = []"
  using best_effort_branches
    [of idle_panel NoAwaiter renders_all two_changes "Inl OtherValue" OtherValue]
  by (simp add: run_def idle_panel_def created_def refresh_def invoke_def taken_def
        refresh_status_settled_def refresh_branches_settled_def loadDiff_def loadDiff_target_def
        two_changes_def js_def Let_def)

text \<open>
  C7 as stated fails: a cycle whose \<open>git_status\<close> call fails ends without any
  \<open>git_branches\<close> invocation.
\<close>

theorem best_effort_branches_counterexample:
  "\<not> refreshInFlight idle_panel
   \<and> invocations (run renders_all [StatusSettled 0 (Inl OtherValue)] (refresh NoAwaiter idle_panel))
       = [git_status None]
   \<and> \<not> refreshInFlight (run renders_all [StatusSettled 0 (Inl OtherValue)] (refresh NoAwaiter idle_panel))
   \<and> branchesCalls (run renders_all [StatusSettled 0 (Inl OtherValue)] (refresh NoAwaiter idle_panel)) = 0"
  by (simp add: run_def idle_panel_def created_def refresh_def invoke_def taken_def
        refresh_status_settled_def refresh_finally_def renderEmpty_def messageOr_def
        branchesCalls_def Let_def)

section \<open>Advisory lookup of the working directory\<close>

text \<open>
  C8. When a \<open>terminal_cwd\<close> invocation fails, the only effect is that the displayed
  working directory becomes null; when there is no active tab, \<open>syncActiveTerminalCwd\<close>
  sets it to null and invokes nothing. The function has no other outcome: no error state
  exists in the component.
\<close>

theorem advisory_cwd:
  "(cwd_pending st i \<longrightarrow>
      app_step (CwdSettled i (Inl e)) (st, w)
        = (st\<lparr> cwd_pending := (cwd_pending st)(i := False), activeTerminalCwd := None \<rparr>, w))
   \<and> (activeTab st = None \<longrightarrow>
        syncActiveTerminalCwd st = st\<lparr> activeTerminalCwd := None \<rparr>)
   \<and> activeTerminalCwd (cwd_settled (Inl e) st) = None"
  by (simp add: cwd_settled_def syncActiveTerminalCwd_def)


theorem advisory_cwd_witness:
  "cwd_pending (syncActiveTerminalCwd two_tabs) 0
   \<and> activeTerminalCwd (fst (app_step (CwdSettled 0 (Inl OtherValue))
                               (syncActiveTerminalCwd two_tabs, no_timers))) = None
   \<and> activeTab (two_tabs\<lparr> tabs := [] \<rparr>) = None
   \<and> activeTerminalCwd (syncActiveTerminalCwd (two_tabs\<lparr> tabs := [] \<rparr>)) = None
   \<and> app_invocations (syncActiveTerminalCwd (two_tabs\<lparr> tabs := [] \<rparr>)) = []"
  using advisory_cwd [of "syncActiveTerminalCwd two_tabs" 0 OtherValue no_timers]
    advisory_cwd [of "two_tabs\<lparr> tabs := [] \<rparr>" 0 OtherValue no_timers]
  by (simp add: two_tabs_def syncActiveTerminalCwd_def activeTab_def projectTabs_def js_def)

section \<open>Selection after a refresh\<close>

lemma selection_rule:
  assumes "sel = (case cs of [] \<Rightarrow> None
      | first # _ \<Rightarrow> if list_ex (\<lambda>change. Some (path change) = prev) cs
                     then prev else Some (path first))"
  shows "(sel = None \<longleftrightarrow> cs = [])
     \<and> (cs \<noteq> [] \<longrightarrow>
          (\<exists>change \<in> set cs. sel = Some (path change))
        \<and> sel = (if \<exists>change \<in> set cs. Some (path change) = prev
                 then prev else Some (path (hd cs))))"
proof (cases cs)
  case Nil
  with assms show ?thesis by simp
next
  case (Cons first rest)
  show ?thesis
  proof (cases "\<exists>change \<in> set cs. Some (path change) = prev")
    case True
    then obtain change where "change \<in> set cs" "Some (path change) = prev" by blast
    moreover from True assms Cons have "sel = prev" by (simp add: list_ex_iff)
    ultimately show ?thesis using True Cons by auto
  next
    case False
    with assms Cons have "sel = Some (path first)" by (simp add: list_ex_iff)
    with False Cons show ?thesis by auto
  qed
qed

text \<open>
  C9. Take a refresh cycle that starts on a panel with no refresh in flight and whose
  \<open>git_status\<close> call succeeds with \<open>s\<close>; let the branches call and the diff call settle in
  any way. Afterwards the selected path is null exactly when \<open>s\<close> has no changes; otherwise
  it is the path of a change of \<open>s\<close>: the selection from before the cycle if a change has
  that path, and the path of the first change if not.
\<close>

theorem selection_invariant:
  "\<not> refreshInFlight p0 \<Longrightarrow>
   (let i = length (invocations p0);
        p = run L [StatusSettled i (Inr s), BranchesSettled (i + 1) rb, DiffSettled (i + 2) rd]
              (refresh a p0)
    in (selectedPath p = None \<longleftrightarrow> changes s = [])
     \<and> (changes s \<noteq> [] \<longrightarrow>
          (\<exists>change \<in> set (changes s). selectedPath p = Some (path change))
        \<and> selectedPath p =
            (if \<exists>change \<in> set (changes s). Some (path change) = selectedPath p0
             then selectedPath p0 else Some (path (hd (changes s))))))"
proof -
  assume idle: "\<not> refreshInFlight p0"
  let ?i = "length (invocations p0)"
  define p1 where "p1 = refresh a p0"
  define p2 where "p2 = step L (StatusSettled ?i (Inr s)) p1"
  define p3 where "p3 = step L (BranchesSettled (?i + 1) rb) p2"
  define p4 where "p4 = step L (DiffSettled (?i + 2) rd) p3"
  have pend1: "pending p1 ?i = Some (RefreshStatus a)"
    and len1: "length (invocations p1) = ?i + 1"
    and sel1: "selectedPath p1 = selectedPath p0"
    using idle by (simp_all add: p1_def refresh_def)
  have p2: "p2 = refresh_status_settled a (Inr s) (taken ?i p1)"
    using pend1 by (simp add: p2_def)
  have pend2: "pending p2 (?i + 1) = Some (RefreshBranches s a)"
    and sel2: "selectedPath p2 = selectedPath p0"
    using len1 by (simp_all add: p2 refresh_status_settled_def sel1)
  have p3: "p3 = refresh_branches_settled s a rb (taken (?i + 1) p2)"
    using pend2 by (simp add: p3_def)
  have sel3: "selectedPath p3 = (case changes s of [] \<Rightarrow> None
      | first # _ \<Rightarrow> if list_ex (\<lambda>change. Some (path change) = selectedPath p0) (changes s)
                     then selectedPath p0 else Some (path first))"
    by (cases "changes s") (simp_all add: p3 selectedPath_branches_settled sel2)
  have sel4: "selectedPath p4 = selectedPath p3"
    by (simp add: p4_def split: option.splits task.splits)
  have run_eq: "run L [StatusSettled ?i (Inr s), BranchesSettled (?i + 1) rb,
                    DiffSettled (?i + 2) rd] (refresh a p0) = p4"
    by (simp add: run_def p4_def p3_def p2_def p1_def)
  show ?thesis
    unfolding Let_def run_eq sel4 by (rule selection_rule [OF sel3])
qed


theorem selection_invariant_witness:
  "\<not> refreshInFlight idle_panel
   \<and> changes two_changes \<noteq> []
   \<and> selectedPath (run renders_all
         [StatusSettled 0 (Inr two_changes), BranchesSettled 1 (Inl OtherValue),
          DiffSettled 2 (Inr (js ''x''))]
         (refresh NoAwaiter idle_panel)) = Some (js ''a.txt'')
   \<and> selectedPath (run renders_all
         [StatusSettled 0 (Inr clean_tree), BranchesSettled 1 (Inl OtherValue),
          DiffSettled 2 (Inr (js ''x''))]
         (refresh NoAwaiter idle_panel)) = None"
  using selection_invariant
    [of idle_panel renders_all two_changes "Inl OtherValue" "Inr (js ''x'')" NoAwaiter]
    selection_invariant
    [of idle_panel renders_all clean_tree "Inl OtherValue" "Inr (js ''x'')" NoAwaiter]
  by (simp add: idle_panel_def created_def two_changes_def clean_tree_def Let_def js_def
        numeral_2_eq_2)

section \<open>Tab replacement\<close>





end
